theory Spec2Isabelle
  imports Main "HOL-Library.Word"
begin

section \<open>The LaTeX command of sir-lancebot: \<open>bot/exts/fun/latex/_latex_cog.py\<close>\<close>

text \<open>
  A Python \<open>str\<close> is modelled as a \<^typ>\<open>string\<close>: each \<^typ>\<open>char\<close> stands for one
  character with a code point below 256. \<open>bytes\<close> are lists of 8-bit words.
\<close>

type_synonym bytes = "8 word list"

subsection \<open>\<open>FORMATTED_CODE_REGEX\<close> as a backtracking matcher\<close>

text \<open>
  Every piece of the pattern is a function from the remaining input to the list of
  the ways it can match there, in the order in which the backtracking engine of \<open>re\<close>
  tries them (a greedy quantifier tries the longest repetition first, a lazy one the
  shortest). An element of such a list is the input left after the piece. The first
  element of the list for the whole pattern is the match that \<open>re.match\<close> reports.
\<close>

text \<open>\<open>\s\<close> on a \<open>str\<close> pattern: the characters below 256 that Unicode calls whitespace.\<close>

definition is_space :: "char \<Rightarrow> bool" where
  "is_space c = ((of_char c :: nat) \<in> {9, 10, 11, 12, 13, 28, 29, 30, 31, 32, 133, 160})"

text \<open>\<open>[a-z]\<close> under \<open>re.IGNORECASE\<close>.\<close>

definition is_letter :: "char \<Rightarrow> bool" where
  "is_letter c = (let n = (of_char c :: nat) in (65 \<le> n \<and> n \<le> 90) \<or> (97 \<le> n \<and> n \<le> 122))"

text \<open>\<open>[ \t]\<close>.\<close>

definition is_blank :: "char \<Rightarrow> bool" where
  "is_blank c = (c = CHR '' '' \<or> c = CHR 0x09)"

text \<open>A literal (also the backreference \<open>(?P=delim)\<close>, whose text is made of backticks).\<close>

fun lit :: "string \<Rightarrow> string \<Rightarrow> string list" where
  "lit [] s = [s]"
| "lit (p # ps) [] = []"
| "lit (p # ps) (c # cs) = (if p = c then lit ps cs else [])"

text \<open>\<open>X*\<close> and \<open>X+\<close> for a character class \<open>X\<close>: longest repetition first.\<close>

fun greedy_star :: "(char \<Rightarrow> bool) \<Rightarrow> string \<Rightarrow> string list" where
  "greedy_star P [] = [[]]"
| "greedy_star P (c # cs) = (if P c then greedy_star P cs else []) @ [c # cs]"

fun greedy_plus :: "(char \<Rightarrow> bool) \<Rightarrow> string \<Rightarrow> string list" where
  "greedy_plus P [] = []"
| "greedy_plus P (c # cs) = (if P c then greedy_star P cs else [])"

text \<open>\<open>(?P<code>.*?)\<close> under \<open>re.DOTALL\<close>: shortest first; the captured text and the rest.\<close>

fun lazy_dot_star :: "string \<Rightarrow> (string \<times> string) list" where
  "lazy_dot_star [] = [([], [])]"
| "lazy_dot_star (c # cs) =
     ([], c # cs) # map (\<lambda>(code, rest). (c # code, rest)) (lazy_dot_star cs)"

text \<open>
  \<open>(?P<delim>(?P<block>```)|``?)\<close>: the text of \<open>delim\<close>, whether \<open>block\<close> took part,
  and the rest.
\<close>

definition delim_alts :: "string \<Rightarrow> (string \<times> bool \<times> string) list" where
  "delim_alts s =
     [(''```'', True, r). r \<leftarrow> lit ''```'' s] @
     [(d, False, r'). r \<leftarrow> lit ''`'' s, (d, r') \<leftarrow> [(''``'', r''). r'' \<leftarrow> lit ''`'' r] @ [(''`'', r)]]"

text \<open>\<open>(?(block)(?:(?P<lang>[a-z]+)\n)?)\<close>.\<close>

definition lang_alts :: "bool \<Rightarrow> string \<Rightarrow> string list" where
  "lang_alts block s =
     (if block then [r'. r \<leftarrow> greedy_plus is_letter s, r' \<leftarrow> lit ''\<newline>'' r] @ [s] else [s])"

text \<open>\<open>(?:[ \t]*\n)*\<close>: one round, then the greedy repetition.\<close>

definition blank_line :: "string \<Rightarrow> string list" where
  "blank_line s = [r'. r \<leftarrow> greedy_star is_blank s, r' \<leftarrow> lit ''\<newline>'' r]"

lemma lit_length: "r \<in> set (lit p s) \<Longrightarrow> length s = length p + length r"
  by (induction p s rule: lit.induct) (auto split: if_splits)

lemma greedy_star_length: "r \<in> set (greedy_star P s) \<Longrightarrow> length r \<le> length s"
  by (induction s) (auto split: if_splits)

lemma blank_line_shorter: "r \<in> set (blank_line s) \<Longrightarrow> length r < length s"
  by (auto simp: blank_line_def dest!: lit_length greedy_star_length)

function blank_lines :: "string \<Rightarrow> string list" where
  "blank_lines s = concat (map blank_lines (blank_line s)) @ [s]"
  by pat_completeness auto
termination
  by (relation "measure length") (auto simp: blank_line_shorter)

declare blank_lines.simps [simp del]

text \<open>\<open>(?P<code>.*?)\s*(?P=delim)\<close>: the captured \<open>code\<close>.\<close>

definition code_alts :: "string \<Rightarrow> string \<Rightarrow> string list" where
  "code_alts delim s =
     [code. (code, r4) \<leftarrow> lazy_dot_star s, r5 \<leftarrow> greedy_star is_space r4, r6 \<leftarrow> lit delim r5]"

text \<open>
  The whole pattern, \<open>re.DOTALL | re.IGNORECASE\<close>: the captured \<open>code\<close> of every way
  the pattern matches at position 0, in the engine's order.
\<close>

definition FORMATTED_CODE_REGEX :: "string \<Rightarrow> string list" where
  "FORMATTED_CODE_REGEX s =
     [code.
        (delim, block, r1) \<leftarrow> delim_alts s,
        r2 \<leftarrow> lang_alts block r1,
        r3 \<leftarrow> blank_lines r2,
        code \<leftarrow> code_alts delim r3]"

text \<open>\<open>FORMATTED_CODE_REGEX.match(text)\<close> and \<open>match.group("code")\<close>.\<close>

definition regex_match :: "string \<Rightarrow> string option" where
  "regex_match text = (case FORMATTED_CODE_REGEX text of [] \<Rightarrow> None | code # _ \<Rightarrow> Some code)"

definition prepare_input :: "string \<Rightarrow> string" where
  "prepare_input text = (case regex_match text of Some code \<Rightarrow> code | None \<Rightarrow> text)"

subsection \<open>Files, the network and the chat context\<close>

text \<open>
  The exceptions the command can meet: \<open>raise_for_status=True\<close> raises
  \<open>ClientResponseError\<close> on a status of 400 or more, \<open>response.json()\<close> raises on a
  body that is not JSON, a subscript on a missing key raises \<open>KeyError\<close>, and
  \<open>InvalidLatexError\<close> is the class of the module, carrying the logs.
\<close>

datatype error =
    ClientResponseError nat
  | ContentTypeError
  | KeyError string
  | InvalidLatexError string
  | FileNotFoundError string

datatype body = Form "(string \<times> string) list" | Text string

datatype request = Post string body | Get string body

text \<open>
  A response of \<open>bot.http_session\<close>: its status, its raw body (\<open>response.read()\<close>) and
  its body parsed as a JSON object with string fields (\<open>response.json()\<close>), which is
  \<open>None\<close> when the body does not parse.
\<close>

record response =
  status :: nat
  content :: bytes
  json :: "(string \<rightharpoonup> string) option"

text \<open>
  What an invocation does to the world outside, in the order in which it does it.
  \<open>Send_embed\<close> (title, description) and \<open>Send_file\<close> (file name, bytes) are the calls of
  \<open>ctx.send\<close>; the chat framework is the host's, and a call of \<open>ctx.send\<close> is taken to
  deliver its message and return.
\<close>

datatype event =
    Open_wb string
  | Write string bytes
  | Close string
  | Http request
  | Send_embed string string
  | Send_file string bytes
  | Unlink string

text \<open>The cache directory (a path to the bytes of the file there) and the events so far.\<close>

record state =
  files :: "string \<rightharpoonup> bytes"
  trace :: "event list"

definition emit :: "event \<Rightarrow> state \<Rightarrow> state" where
  "emit e st = st\<lparr>trace := trace st @ [e]\<rparr>"

text \<open>\<open>open(path, "wb")\<close> creates the file or truncates it.\<close>

definition open_wb :: "string \<Rightarrow> state \<Rightarrow> state" where
  "open_wb path st = emit (Open_wb path) (st\<lparr>files := (files st)(path \<mapsto> [])\<rparr>)"

text \<open>\<open>out_file.write(data)\<close>, with the path standing for the handle.\<close>

definition write_file :: "string \<Rightarrow> bytes \<Rightarrow> state \<Rightarrow> state" where
  "write_file path data st =
     emit (Write path data)
       (st\<lparr>files := (files st)(path \<mapsto> (case files st path of None \<Rightarrow> [] | Some old \<Rightarrow> old) @ data)\<rparr>)"

text \<open>Leaving the \<open>with open(...)\<close> block.\<close>

definition close :: "string \<Rightarrow> state \<Rightarrow> state" where
  "close path st = emit (Close path) st"

text \<open>\<open>Path.unlink()\<close> raises when there is no file.\<close>

definition unlink :: "string \<Rightarrow> state \<Rightarrow> (error + unit) \<times> state" where
  "unlink path st =
     (case files st path of
        None \<Rightarrow> (Inl (FileNotFoundError path), st)
      | Some _ \<Rightarrow> (Inr (), emit (Unlink path) (st\<lparr>files := (files st)(path := None)\<rparr>)))"

text \<open>\<open>ctx.send(file=discord.File(path, name))\<close>: the file is read, then sent.\<close>

definition send_file :: "string \<Rightarrow> string \<Rightarrow> state \<Rightarrow> (error + unit) \<times> state" where
  "send_file path name st =
     (case files st path of
        None \<Rightarrow> (Inl (FileNotFoundError path), st)
      | Some data \<Rightarrow> (Inr (), emit (Send_file name data) st))"

subsection \<open>Constants and library functions\<close>

definition LATEX_API_URL :: string where
  "LATEX_API_URL = ''https://rtex.probablyaweb.site/api/v2''"

definition PASTEBIN_URL :: string where
  "PASTEBIN_URL = ''https://paste.pythondiscord.com''"

definition CACHE_DIRECTORY :: string where
  "CACHE_DIRECTORY = ''cache''"

text \<open>\<open>str.encode()\<close>: UTF-8, for code points below 256.\<close>

definition encode :: "string \<Rightarrow> bytes" where
  "encode s =
     concat (map (\<lambda>c. let n = (of_char c :: nat)
                      in if n < 128 then [word_of_nat n]
                         else [word_of_nat (192 + n div 64), word_of_nat (128 + n mod 64)]) s)"

text \<open>
  \<open>TEMPLATE\<close> is read from \<open>template.txt\<close>, which is not among the sources: it is a
  parameter, a \<open>string.Template\<close> given as its literal pieces and its placeholders.
  \<open>substitute(text=query)\<close> fills the placeholder \<open>text\<close> and raises \<open>KeyError\<close> at
  the first placeholder of another name.
\<close>

datatype segment = Literal string | Placeholder string

fun substitute :: "segment list \<Rightarrow> string \<Rightarrow> error + string" where
  "substitute [] query = Inr []"
| "substitute (Literal s # segs) query =
     (case substitute segs query of Inl e \<Rightarrow> Inl e | Inr d \<Rightarrow> Inr (s @ d))"
| "substitute (Placeholder n # segs) query =
     (if n = ''text''
      then (case substitute segs query of Inl e \<Rightarrow> Inl e | Inr d \<Rightarrow> Inr (query @ d))
      else Inl (KeyError n))"

subsection \<open>The cog\<close>

text \<open>
  \<open>Latex._generate_image\<close>. \<open>http_session\<close> gives the response to each request of
  this invocation.
\<close>

definition generate_image ::
  "(request \<Rightarrow> response) \<Rightarrow> string \<Rightarrow> string \<Rightarrow> state \<Rightarrow> (error + unit) \<times> state" where
  "generate_image http_session query out_file st =
     (let payload = Form [(''code'', query), (''format'', ''png'')];
          st1 = emit (Http (Post LATEX_API_URL payload)) st;
          response = http_session (Post LATEX_API_URL payload)
      in if 400 \<le> status response then (Inl (ClientResponseError (status response)), st1)
         else case json response of
           None \<Rightarrow> (Inl ContentTypeError, st1)
         | Some response_json \<Rightarrow>
            (case response_json ''status'' of
               None \<Rightarrow> (Inl (KeyError ''status''), st1)
             | Some s \<Rightarrow>
                if s \<noteq> ''success''
                then (case response_json ''log'' of
                        None \<Rightarrow> (Inl (KeyError ''log''), st1)
                      | Some logs \<Rightarrow> (Inl (InvalidLatexError logs), st1))
                else (case response_json ''filename'' of
                        None \<Rightarrow> (Inl (KeyError ''filename''), st1)
                      | Some filename \<Rightarrow>
                         (let url = LATEX_API_URL @ ''/'' @ filename;
                              st2 = emit (Http (Get url payload)) st1;
                              response2 = http_session (Get url payload)
                          in if 400 \<le> status response2
                             then (Inl (ClientResponseError (status response2)), st2)
                             else (Inr (), write_file out_file (content response2) st2)))))"

text \<open>\<open>Latex._upload_to_pastebin\<close>: every exception is caught, and the result is then \<open>None\<close>.\<close>

definition upload_to_pastebin ::
  "(request \<Rightarrow> response) \<Rightarrow> string \<Rightarrow> state \<Rightarrow> string option \<times> state" where
  "upload_to_pastebin http_session text st =
     (let req = Post (PASTEBIN_URL @ ''/documents'') (Text text);
          st1 = emit (Http req) st;
          response = http_session req
      in if 400 \<le> status response then (None, st1)
         else case json response of
           None \<Rightarrow> (None, st1)
         | Some response_json \<Rightarrow>
            (case response_json ''key'' of
               None \<Rightarrow> (None, st1)
             | Some key \<Rightarrow> (Some (PASTEBIN_URL @ ''/'' @ key @ ''.txt?noredirect''), st1)))"

text \<open>
  Lines 86 and 87 of \<open>Latex.latex\<close>; \<open>hashlib.md5(...).hexdigest()\<close> is the parameter
  \<open>md5_hexdigest\<close>.
\<close>

definition image_path :: "(bytes \<Rightarrow> string) \<Rightarrow> string \<Rightarrow> string" where
  "image_path md5_hexdigest query =
     (let query_hash = md5_hexdigest (encode query)
      in CACHE_DIRECTORY @ ''/'' @ query_hash @ ''.png'')"

text \<open>The embed of the failure branch: its title and its description.\<close>

definition failure_embed :: "string option \<Rightarrow> event" where
  "failure_embed logs_paste_url =
     Send_embed ''Failed to render input.''
       (case logs_paste_url of
          Some url \<Rightarrow> if url \<noteq> [] then ''[View Logs]('' @ url @ '')'' else ''Couldn't upload logs.''
        | None \<Rightarrow> ''Couldn't upload logs.'')"

text \<open>\<open>Latex.latex\<close>. An \<open>Inl\<close> is an exception that leaves the command.\<close>

definition latex ::
  "(bytes \<Rightarrow> string) \<Rightarrow> segment list \<Rightarrow> (request \<Rightarrow> response) \<Rightarrow> string \<Rightarrow> state
     \<Rightarrow> (error + unit) \<times> state" where
  "latex md5_hexdigest TEMPLATE http_session raw st =
     (let query = prepare_input raw;
          path = image_path md5_hexdigest query
      in if files st path = None
         then
           (let st1 = open_wb path st
            in case substitute TEMPLATE query of
                 Inl e \<Rightarrow> (Inl e, close path st1)
               | Inr document \<Rightarrow>
                  (case generate_image http_session document path st1 of
                     (Inr u, st2) \<Rightarrow> send_file path ''latex.png'' (close path st2)
                   | (Inl (InvalidLatexError logs), st2) \<Rightarrow>
                      (let st3 = close path st2;
                           (logs_paste_url, st4) = upload_to_pastebin http_session logs st3;
                           st5 = emit (failure_embed logs_paste_url) st4
                       in unlink path st5)
                   | (Inl e, st2) \<Rightarrow> (Inl e, close path st2)))
         else send_file path ''latex.png'' st)"

text \<open>
  One invocation after the other, each with the responses the network gives it; the
  host goes on to the next invocation also after one that raised.
\<close>

fun invocations ::
  "(bytes \<Rightarrow> string) \<Rightarrow> segment list \<Rightarrow> ((request \<Rightarrow> response) \<times> string) list \<Rightarrow> state \<Rightarrow> state" where
  "invocations md5_hexdigest TEMPLATE [] st = st"
| "invocations md5_hexdigest TEMPLATE ((http_session, raw) # rest) st =
     invocations md5_hexdigest TEMPLATE rest (snd (latex md5_hexdigest TEMPLATE http_session raw st))"

subsection \<open>What a fence captures\<close>

text \<open>The text without the whitespace at its end.\<close>

fun rstrip :: "string \<Rightarrow> string" where
  "rstrip [] = []"
| "rstrip (c # cs) = (if list_all is_space (c # cs) then [] else c # rstrip cs)"

text \<open>
  The body between two delimiters without the language line (for a block), the blank
  lines at its start and the whitespace at its end, each as the pattern's first way
  of matching takes them.
\<close>

definition fence_body :: "bool \<Rightarrow> string \<Rightarrow> string" where
  "fence_body blk b = rstrip (hd (blank_lines (hd (lang_alts blk b))))"

subsection \<open>Requests and events of the command\<close>

text \<open>The requests that \<open>_generate_image\<close> and \<open>_upload_to_pastebin\<close> send.\<close>

abbreviation render_payload :: "string \<Rightarrow> body" where
  "render_payload query \<equiv> Form [(''code'', query), (''format'', ''png'')]"

abbreviation render_post :: "string \<Rightarrow> request" where
  "render_post query \<equiv> Post LATEX_API_URL (render_payload query)"

abbreviation render_get :: "string \<Rightarrow> string \<Rightarrow> request" where
  "render_get filename query \<equiv> Get (LATEX_API_URL @ ''/'' @ filename) (render_payload query)"

abbreviation paste_post :: "string \<Rightarrow> request" where
  "paste_post text \<equiv> Post (PASTEBIN_URL @ ''/documents'') (Text text)"

text \<open>The kinds of events.\<close>

definition is_notice :: "event \<Rightarrow> bool" where
  "is_notice e = (case e of Send_embed _ _ \<Rightarrow> True | _ \<Rightarrow> False)"

definition is_image :: "event \<Rightarrow> bool" where
  "is_image e = (case e of Send_file _ _ \<Rightarrow> True | _ \<Rightarrow> False)"

definition is_http :: "event \<Rightarrow> bool" where
  "is_http e = (case e of Http _ \<Rightarrow> True | _ \<Rightarrow> False)"

text \<open>An event \<open>a\<close> comes before an event \<open>b\<close> in a trace.\<close>

fun precedes :: "event \<Rightarrow> event \<Rightarrow> event list \<Rightarrow> bool" where
  "precedes a b [] = False"
| "precedes a b (e # es) = ((e = a \<and> b \<in> set es) \<or> precedes a b es)"

subsection \<open>Concrete parameters\<close>

text \<open>
  Values for the parameters of the command, on which it is evaluated below: a digest
  function in the place of \<open>hashlib.md5\<close>, a template, an empty cache directory, and
  networks that answer in a fixed way (a renderer that rejects the document, with a
  paste service that works; no service at all; a renderer that works; a renderer whose
  artifact cannot be fetched).
\<close>

definition example_md5 :: "bytes \<Rightarrow> string" where
  "example_md5 data = map (\<lambda>b. CHR ''0'') data"

definition example_template :: "segment list" where
  "example_template = [Literal ''$'', Placeholder ''text'', Literal ''$'']"

definition empty_cache :: state where
  "empty_cache = \<lparr>files = Map.empty, trace = []\<rparr>"

definition http_render_failure :: "request \<Rightarrow> response" where
  "http_render_failure req =
     (case req of
        Post url (Form form) \<Rightarrow>
          \<lparr>status = 200, content = [], json = Some [''status'' \<mapsto> ''error'', ''log'' \<mapsto> ''boom'']\<rparr>
      | Post url (Text t) \<Rightarrow> \<lparr>status = 200, content = [], json = Some [''key'' \<mapsto> ''abc'']\<rparr>
      | Get url b \<Rightarrow> \<lparr>status = 404, content = [], json = None\<rparr>)"

definition http_down :: "request \<Rightarrow> response" where
  "http_down req = \<lparr>status = 503, content = [], json = None\<rparr>"

definition http_render_ok :: "request \<Rightarrow> response" where
  "http_render_ok req =
     (case req of
        Post url (Form form) \<Rightarrow>
          \<lparr>status = 200, content = [], json = Some [''status'' \<mapsto> ''success'', ''filename'' \<mapsto> ''out.png'']\<rparr>
      | Post url (Text t) \<Rightarrow> \<lparr>status = 400, content = [], json = None\<rparr>
      | Get url b \<Rightarrow> \<lparr>status = 200, content = [137, 80, 78, 71], json = None\<rparr>)"

definition http_get_down :: "request \<Rightarrow> response" where
  "http_get_down req =
     (case req of
        Post url b \<Rightarrow>
          \<lparr>status = 200, content = [], json = Some [''status'' \<mapsto> ''success'', ''filename'' \<mapsto> ''out.png'']\<rparr>
      | Get url b \<Rightarrow> \<lparr>status = 500, content = [], json = None\<rparr>)"

subsection \<open>The normaliser in the words of the specification\<close>

text \<open>
  A second definition of the normaliser, which does not use the matcher above. It
  follows section 4.1 of the specification: at the very start of the text, (a) an
  opening delimiter of one to three backticks, (b) if the delimiter is exactly three
  backticks, an optional language tag (letters only) followed by a newline, (c) any
  number of blank lines, (d) a body captured minimally up to trailing whitespace,
  (e) a closing delimiter identical to the opening one; the result is the body, and
  the text unchanged when there is no such fence.
\<close>

text \<open>Letters, the characters of a blank line, and whitespace, each listed.\<close>

definition spec_letter :: "char \<Rightarrow> bool" where
  "spec_letter c = (c \<in> set ''abcdefghijklmnopqrstuvwxyzABCDEFGHIJKLMNOPQRSTUVWXYZ'')"

definition spec_blank :: "char \<Rightarrow> bool" where
  "spec_blank c = (c \<in> set [CHR '' '', CHR 0x09])"

definition spec_whitespace :: "char \<Rightarrow> bool" where
  "spec_whitespace c =
     (c \<in> set [CHR 0x09, CHR 0x0A, CHR 0x0B, CHR 0x0C, CHR 0x0D, CHR 0x1C, CHR 0x1D, CHR 0x1E,
               CHR 0x1F, CHR 0x20, CHR 0x85, CHR 0xA0])"

text \<open>The delimiter \<open>d\<close> occurs somewhere in \<open>s\<close>.\<close>

fun occurs :: "string \<Rightarrow> string \<Rightarrow> bool" where
  "occurs d [] = (d = [])"
| "occurs d (c # cs) = (take (length d) (c # cs) = d \<or> occurs d cs)"

text \<open>At \<open>s\<close> the fence closes: whitespace only, then the delimiter.\<close>

definition closes :: "string \<Rightarrow> string \<Rightarrow> bool" where
  "closes d s = (take (length d) (dropWhile spec_whitespace s) = d)"

text \<open>(d) The body: the shortest text after which the fence closes.\<close>

fun spec_body :: "string \<Rightarrow> string \<Rightarrow> string" where
  "spec_body d [] = []"
| "spec_body d (c # cs) = (if closes d (c # cs) then [] else c # spec_body d cs)"

text \<open>(b) An optional language tag, letters only, followed by a newline.\<close>

definition spec_strip_language :: "string \<Rightarrow> string" where
  "spec_strip_language s =
     (let tag = takeWhile spec_letter s; rest = dropWhile spec_letter s
      in if tag \<noteq> [] \<and> take 1 rest = ''\<newline>'' then drop 1 rest else s)"

text \<open>(c) Any number of blank lines: spaces and tabs only, up to a newline.\<close>

function spec_strip_blank_lines :: "string \<Rightarrow> string" where
  "spec_strip_blank_lines s =
     (let rest = dropWhile spec_blank s
      in if take 1 rest = ''\<newline>'' then spec_strip_blank_lines (drop 1 rest) else s)"
  by pat_completeness auto
termination
proof (relation "measure length")
  show "wf (measure length)" by simp
next
  fix s :: string and rest
  assume r: "rest = dropWhile spec_blank s" and t: "take 1 rest = ''\<newline>''"
  have "rest \<noteq> []" using t by auto
  moreover have "length rest \<le> length s" using r by (simp add: length_dropWhile_le)
  ultimately show "(drop 1 rest, s) \<in> measure length" by (cases rest) auto
qed

declare spec_strip_blank_lines.simps [simp del]

text \<open>
  (a), (e) The opening delimiter: three, two or one backticks at position 0, the
  longest that occurs again after it.
\<close>

definition spec_delimiter :: "string \<Rightarrow> string option" where
  "spec_delimiter text =
     (if take 3 text = ''```'' \<and> occurs ''```'' (drop 3 text) then Some ''```''
      else if take 2 text = ''``'' \<and> occurs ''``'' (drop 2 text) then Some ''``''
      else if take 1 text = ''`'' \<and> occurs ''`'' (drop 1 text) then Some ''`''
      else None)"

text \<open>\<open>normalize(text)\<close>: the body of the fence, or the text itself when there is none.\<close>

definition normalize :: "string \<Rightarrow> string" where
  "normalize text =
     (case spec_delimiter text of
        None \<Rightarrow> text
      | Some d \<Rightarrow>
         (let inner = drop (length d) text;
              after_tag = (if d = ''```'' then spec_strip_language inner else inner)
          in spec_body d (spec_strip_blank_lines after_tag)))"


text \<open>
  The first of the alternatives for the delimiter whose delimiter occurs again, with
  the body it gives.
\<close>

fun first_closed :: "(string \<times> bool \<times> string) list \<Rightarrow> string option" where
  "first_closed [] = None"
| "first_closed ((d, blk, r) # alts) =
     (if occurs d r
      then Some (spec_body d (spec_strip_blank_lines (if blk then spec_strip_language r else r)))
      else first_closed alts)"

section \<open>Properties of the pattern\<close>

lemma lit_self: "lit d (d @ u) = [u]"
  by (induction d) auto

lemma space_lit:
  assumes "CHR 0x60 \<notin> set b"
  shows "concat (map (lit (CHR 0x60 # d)) (greedy_star is_space (b @ (CHR 0x60 # d) @ u)))
         = (if list_all is_space b then [u] else [])"
  using assms
proof (induction b)
  case Nil
  have "\<not> is_space CHR 0x60" by (simp add: is_space_def)
  then show ?case using lit_self [of "CHR 0x60 # d" u] by simp
next
  case (Cons c cs)
  then show ?case by auto
qed

lemma code_alts_Nil:
  "code_alts d [] = map (\<lambda>_. []) (concat (map (lit d) (greedy_star is_space [])))"
  by (simp add: code_alts_def)

lemma concat_map_const: "concat (map (\<lambda>x. concat (map (\<lambda>y. [c]) (f x))) xs) = map (\<lambda>_. c) (concat (map f xs))"
  by (induction xs) (auto simp: map_concat comp_def)

lemma code_alts_Cons:
  "code_alts d (c # cs) =
     map (\<lambda>_. []) (concat (map (lit d) (greedy_star is_space (c # cs)))) @ map ((#) c) (code_alts d cs)"
  unfolding code_alts_def
  by (simp add: concat_map_const map_concat comp_def case_prod_unfold)


lemma code_alts_fence:
  assumes "CHR 0x60 \<notin> set b"
  shows "\<exists>rest. code_alts (CHR 0x60 # d) (b @ (CHR 0x60 # d) @ u) = rstrip b # rest"
  using assms
proof (induction b)
  case Nil
  have "\<not> is_space CHR 0x60" by (simp add: is_space_def)
  then show ?case
    using lit_self [of "CHR 0x60 # d" u] code_alts_Cons [of "CHR 0x60 # d" "CHR 0x60" "d @ u"]
    by simp
next
  case (Cons c cs)
  then obtain rest where r: "code_alts (CHR 0x60 # d) (cs @ (CHR 0x60 # d) @ u) = rstrip cs # rest"
    by auto
  have t: "CHR 0x60 \<notin> set (c # cs)" using Cons.prems by simp
  show ?case
    using space_lit [OF t, of d u] r code_alts_Cons [of "CHR 0x60 # d" c "cs @ (CHR 0x60 # d) @ u"]
    by (cases "list_all is_space (c # cs)") auto
qed

lemma greedy_star_append:
  "\<not> P c \<Longrightarrow> greedy_star P (b @ c # x) = map (\<lambda>r. r @ c # x) (greedy_star P b)"
  by (induction b) auto

lemma lit_append:
  "p \<noteq> c \<Longrightarrow> lit [p] (r @ c # x) = map (\<lambda>r'. r' @ c # x) (lit [p] r)"
  by (cases r) auto

lemma blank_line_append:
  "blank_line (b @ CHR 0x60 # x) = map (\<lambda>r. r @ CHR 0x60 # x) (blank_line b)"
proof -
  have "\<not> is_blank CHR 0x60" by (simp add: is_blank_def)
  then show ?thesis
    by (simp add: blank_line_def greedy_star_append lit_append map_concat comp_def)
qed

lemma blank_lines_append:
  "blank_lines (b @ CHR 0x60 # x) = map (\<lambda>r. r @ CHR 0x60 # x) (blank_lines b)"
proof (induction b rule: blank_lines.induct)
  case (1 s)
  have "concat (map blank_lines (blank_line (s @ CHR 0x60 # x)))
        = concat (map (\<lambda>r. map (\<lambda>r. r @ CHR 0x60 # x) (blank_lines r)) (blank_line s))"
    using 1 by (simp add: blank_line_append comp_def cong: map_cong)
  moreover have "blank_lines (s @ CHR 0x60 # x)
        = concat (map blank_lines (blank_line (s @ CHR 0x60 # x))) @ [s @ CHR 0x60 # x]"
    by (rule blank_lines.simps)
  moreover have "blank_lines s = concat (map blank_lines (blank_line s)) @ [s]"
    by (rule blank_lines.simps)
  ultimately show ?case
    by (simp add: map_concat comp_def)
qed

lemma lang_alts_append:
  "lang_alts blk (b @ CHR 0x60 # x) = map (\<lambda>r. r @ CHR 0x60 # x) (lang_alts blk b)"
proof -
  have n: "\<not> is_letter CHR 0x60" by (simp add: is_letter_def)
  have "greedy_plus is_letter (b @ CHR 0x60 # x) = map (\<lambda>r. r @ CHR 0x60 # x) (greedy_plus is_letter b)"
    using n by (cases b) (auto simp: greedy_star_append)
  then show ?thesis
    by (simp add: lang_alts_def lit_append map_concat comp_def)
qed


lemma lit_set: "r \<in> set (lit p s) \<Longrightarrow> set r \<subseteq> set s"
  by (induction p s rule: lit.induct) (auto split: if_splits)

lemma greedy_star_set: "r \<in> set (greedy_star P s) \<Longrightarrow> set r \<subseteq> set s"
  by (induction s) (auto split: if_splits)

lemma blank_line_set: "r \<in> set (blank_line s) \<Longrightarrow> set r \<subseteq> set s"
  by (auto simp: blank_line_def dest!: lit_set greedy_star_set)

lemma blank_lines_set: "r \<in> set (blank_lines s) \<Longrightarrow> set r \<subseteq> set s"
proof (induction s arbitrary: r rule: blank_lines.induct)
  case (1 s)
  from "1.prems" have "r = s \<or> (\<exists>t \<in> set (blank_line s). r \<in> set (blank_lines t))"
    by (subst (asm) blank_lines.simps) auto
  then show ?case
    using "1.IH" blank_line_set by blast
qed

lemma lang_alts_set: "r \<in> set (lang_alts blk s) \<Longrightarrow> set r \<subseteq> set s"
  by (cases s) (auto simp: lang_alts_def split: if_splits dest!: lit_set greedy_star_set)

lemma blank_lines_nonempty: "blank_lines s \<noteq> []"
  by (subst blank_lines.simps) simp

lemma lang_alts_nonempty: "lang_alts blk s \<noteq> []"
  by (simp add: lang_alts_def)

lemma concat_map_hd:
  "xs \<noteq> [] \<Longrightarrow> f (hd xs) = y # ys \<Longrightarrow> \<exists>rest. concat (map f xs) = y # rest"
  by (cases xs) auto

lemma body_stage:
  assumes "CHR 0x60 \<notin> set b"
  shows "\<exists>rest. concat (map (\<lambda>r2. concat (map (code_alts (CHR 0x60 # d)) (blank_lines r2)))
                   (lang_alts blk (b @ (CHR 0x60 # d) @ u))) = fence_body blk b # rest"
proof -
  let ?x = "d @ u"
  let ?app = "\<lambda>r. r @ CHR 0x60 # ?x"
  define l where "l = hd (lang_alts blk b)"
  define l' where "l' = hd (blank_lines l)"
  have "l \<in> set (lang_alts blk b)"
    unfolding l_def using lang_alts_nonempty by simp
  then have tl: "CHR 0x60 \<notin> set l"
    using assms lang_alts_set by blast
  have "l' \<in> set (blank_lines l)"
    unfolding l'_def using blank_lines_nonempty by simp
  then have tl': "CHR 0x60 \<notin> set l'"
    using tl blank_lines_set by blast
  obtain rest where c: "code_alts (CHR 0x60 # d) (l' @ (CHR 0x60 # d) @ u) = rstrip l' # rest"
    using code_alts_fence [OF tl'] by blast
  have h1: "hd (blank_lines (l @ CHR 0x60 # ?x)) = l' @ CHR 0x60 # ?x"
    by (simp add: blank_lines_append hd_map blank_lines_nonempty l'_def)
  have "\<exists>rest. concat (map (code_alts (CHR 0x60 # d)) (blank_lines (l @ CHR 0x60 # ?x))) = rstrip l' # rest"
    by (rule concat_map_hd [where ys = rest]) (use c h1 blank_lines_nonempty in auto)
  then obtain rest2 where
    c2: "concat (map (code_alts (CHR 0x60 # d)) (blank_lines (l @ CHR 0x60 # ?x))) = rstrip l' # rest2"
    by blast
  have h2: "hd (lang_alts blk (b @ CHR 0x60 # ?x)) = l @ CHR 0x60 # ?x"
    by (simp add: lang_alts_append hd_map lang_alts_nonempty l_def)
  have "\<exists>rest. concat (map (\<lambda>r2. concat (map (code_alts (CHR 0x60 # d)) (blank_lines r2)))
                   (lang_alts blk (b @ CHR 0x60 # ?x))) = rstrip l' # rest"
    by (rule concat_map_hd [where ys = rest2]) (use c2 h2 lang_alts_nonempty in auto)
  then show ?thesis
    by (simp add: fence_body_def l_def l'_def)
qed

lemma regex_unfold:
  "FORMATTED_CODE_REGEX s =
     concat (map (\<lambda>(delim, block, r1).
       concat (map (\<lambda>r2. concat (map (code_alts delim) (blank_lines r2))) (lang_alts block r1)))
       (delim_alts s))"
  by (simp add: FORMATTED_CODE_REGEX_def)

lemma delim_alts_hd:
  assumes "d \<in> {''`'', ''``'', ''```''}" and "b \<noteq> []" and "CHR 0x60 \<notin> set b"
  shows "\<exists>rest. delim_alts (d @ b @ x) = (d, d = ''```'', b @ x) # rest"
proof -
  obtain c cs where b: "b = c # cs" using assms(2) by (cases b) auto
  then have "c \<noteq> CHR 0x60" using assms(3) by auto
  then show ?thesis using assms(1) b by (auto simp: delim_alts_def)
qed

lemma regex_fence:
  assumes "d \<in> {''`'', ''``'', ''```''}" and "b \<noteq> []" and "CHR 0x60 \<notin> set b"
  shows "\<exists>rest. FORMATTED_CODE_REGEX (d @ b @ d @ u) = fence_body (d = ''```'') b # rest"
proof -
  obtain d' where d: "d = CHR 0x60 # d'" using assms(1) by auto
  obtain rest where a: "delim_alts (d @ b @ d @ u) = (d, d = ''```'', b @ d @ u) # rest"
    using delim_alts_hd [OF assms] by blast
  obtain rest2 where
    "concat (map (\<lambda>r2. concat (map (code_alts d) (blank_lines r2)))
                   (lang_alts (d = ''```'') (b @ d @ u))) = fence_body (d = ''```'') b # rest2"
    using body_stage [OF assms(3), of d' "d = ''```''" u] d by auto
  then show ?thesis
    unfolding regex_unfold a by simp
qed

lemma prepare_input_fence:
  assumes "d \<in> {''`'', ''``'', ''```''}" and "b \<noteq> []" and "CHR 0x60 \<notin> set b"
  shows "prepare_input (d @ b @ d @ u) = fence_body (d = ''```'') b"
  using regex_fence [OF assms, of u] by (auto simp: prepare_input_def regex_match_def)


lemma rstrip_prefix: "\<exists>q. b = rstrip b @ q"
  by (induction b) auto

lemma lit_suffix: "r \<in> set (lit p s) \<Longrightarrow> s = p @ r"
  by (induction p s rule: lit.induct) (auto split: if_splits)

lemma greedy_star_suffix: "r \<in> set (greedy_star P s) \<Longrightarrow> \<exists>p. s = p @ r"
proof (induction s)
  case Nil
  then show ?case by simp
next
  case (Cons c cs)
  then have "r = c # cs \<or> r \<in> set (greedy_star P cs)"
    by (auto split: if_splits)
  then show ?case
    using Cons.IH by (metis append_Cons append_Nil)
qed

lemma blank_line_suffix: "r \<in> set (blank_line s) \<Longrightarrow> \<exists>p. s = p @ r"
  by (auto simp: blank_line_def dest!: lit_suffix greedy_star_suffix)

lemma blank_lines_suffix: "r \<in> set (blank_lines s) \<Longrightarrow> \<exists>p. s = p @ r"
proof (induction s arbitrary: r rule: blank_lines.induct)
  case (1 s)
  from "1.prems" have "r = s \<or> (\<exists>t \<in> set (blank_line s). r \<in> set (blank_lines t))"
    by (subst (asm) blank_lines.simps) auto
  then show ?case
  proof
    assume "r = s"
    then show ?thesis by simp
  next
    assume "\<exists>t \<in> set (blank_line s). r \<in> set (blank_lines t)"
    then obtain t where t: "t \<in> set (blank_line s)" "r \<in> set (blank_lines t)" by blast
    from "1.IH" [OF t] obtain p where "t = p @ r" by blast
    moreover from blank_line_suffix [OF t(1)] obtain p' where "s = p' @ t" by blast
    ultimately show ?thesis by (metis append.assoc)
  qed
qed

lemma lang_alts_suffix: "r \<in> set (lang_alts blk s) \<Longrightarrow> \<exists>p. s = p @ r"
proof (cases s)
  case Nil
  then show "r \<in> set (lang_alts blk s) \<Longrightarrow> ?thesis"
    by (auto simp: lang_alts_def split: if_splits)
next
  case (Cons c cs)
  assume "r \<in> set (lang_alts blk s)"
  then have "r = s \<or> (\<exists>t \<in> set (greedy_star is_letter cs). r \<in> set (lit ''\<newline>'' t))"
    using Cons by (auto simp: lang_alts_def split: if_splits)
  then show ?thesis
  proof
    assume "r = s"
    then show ?thesis by simp
  next
    assume "\<exists>t \<in> set (greedy_star is_letter cs). r \<in> set (lit ''\<newline>'' t)"
    then obtain t where t: "t \<in> set (greedy_star is_letter cs)" "r \<in> set (lit ''\<newline>'' t)" by blast
    from greedy_star_suffix [OF t(1)] obtain p where "cs = p @ t" by blast
    moreover from lit_suffix [OF t(2)] have "t = ''\<newline>'' @ r" .
    ultimately have "s = (c # p @ ''\<newline>'') @ r" using Cons by simp
    then show ?thesis by blast
  qed
qed

lemma fence_body_part: "\<exists>p q. b = p @ fence_body blk b @ q"
proof -
  define l where "l = hd (lang_alts blk b)"
  define l' where "l' = hd (blank_lines l)"
  have "l \<in> set (lang_alts blk b)"
    unfolding l_def using lang_alts_nonempty by simp
  then obtain p1 where 1: "b = p1 @ l" using lang_alts_suffix by blast
  have "l' \<in> set (blank_lines l)"
    unfolding l'_def using blank_lines_nonempty by simp
  then obtain p2 where 2: "l = p2 @ l'" using blank_lines_suffix by blast
  obtain q where 3: "l' = rstrip l' @ q" using rstrip_prefix by blast
  have "b = (p1 @ p2) @ rstrip l' @ q" using 1 2 3 by simp
  then show ?thesis unfolding fence_body_def l_def l'_def by blast
qed

lemma lazy_dot_star_split: "(c, r) \<in> set (lazy_dot_star s) \<Longrightarrow> s = c @ r"
  by (induction s arbitrary: c r) auto

lemma greedy_star_split: "r \<in> set (greedy_star P s) \<Longrightarrow> \<exists>w. s = w @ r \<and> list_all P w"
proof (induction s)
  case Nil
  then show ?case by simp
next
  case (Cons c cs)
  then have "r = c # cs \<or> (P c \<and> r \<in> set (greedy_star P cs))"
    by (auto split: if_splits)
  then show ?case
  proof
    assume "r = c # cs"
    then have "c # cs = [] @ r \<and> list_all P []" by simp
    then show ?thesis by blast
  next
    assume a: "P c \<and> r \<in> set (greedy_star P cs)"
    then obtain w where "cs = w @ r \<and> list_all P w" using Cons.IH by blast
    then have "c # cs = (c # w) @ r \<and> list_all P (c # w)" using a by simp
    then show ?thesis by blast
  qed
qed

lemma delim_alts_split:
  "(d, blk, r) \<in> set (delim_alts s) \<Longrightarrow> s = d @ r \<and> d \<in> {''`'', ''``'', ''```''}"
  by (auto simp: delim_alts_def dest!: lit_suffix)

lemma code_alts_split:
  assumes "code \<in> set (code_alts d s)"
  shows "\<exists>w rest. s = code @ w @ d @ rest \<and> list_all is_space w"
proof -
  from assms obtain r4 r5 r6 where
    1: "(code, r4) \<in> set (lazy_dot_star s)" and 2: "r5 \<in> set (greedy_star is_space r4)"
    and 3: "r6 \<in> set (lit d r5)"
    by (auto simp: code_alts_def)
  from greedy_star_split [OF 2] obtain w where w: "r4 = w @ r5" "list_all is_space w" by blast
  have "s = code @ w @ d @ r6"
    using lazy_dot_star_split [OF 1] w(1) lit_suffix [OF 3] by simp
  then show ?thesis using w(2) by blast
qed

lemma regex_sound:
  assumes "code \<in> set (FORMATTED_CODE_REGEX text)"
  shows "\<exists>d pre w rest. d \<in> {''`'', ''``'', ''```''} \<and> list_all is_space w
           \<and> text = d @ pre @ code @ w @ d @ rest"
proof -
  from assms obtain d blk r1 r2 r3 where
    1: "(d, blk, r1) \<in> set (delim_alts text)" and 2: "r2 \<in> set (lang_alts blk r1)"
    and 3: "r3 \<in> set (blank_lines r2)" and 4: "code \<in> set (code_alts d r3)"
    by (auto simp: FORMATTED_CODE_REGEX_def)
  from lang_alts_suffix [OF 2] obtain p1 where p1: "r1 = p1 @ r2" by blast
  from blank_lines_suffix [OF 3] obtain p2 where p2: "r2 = p2 @ r3" by blast
  from code_alts_split [OF 4] obtain w rest where
    c: "r3 = code @ w @ d @ rest" "list_all is_space w" by blast
  have "text = d @ (p1 @ p2) @ code @ w @ d @ rest"
    using delim_alts_split [OF 1] p1 p2 c(1) by simp
  then show ?thesis using delim_alts_split [OF 1] c(2) by blast
qed

lemma regex_match_sound:
  assumes "regex_match text = Some code"
  shows "\<exists>d pre w rest. d \<in> {''`'', ''``'', ''```''} \<and> list_all is_space w
           \<and> text = d @ pre @ code @ w @ d @ rest"
proof -
  have "code \<in> set (FORMATTED_CODE_REGEX text)"
    using assms by (auto simp: regex_match_def split: list.splits)
  then show ?thesis by (rule regex_sound)
qed

lemma regex_match_needs_backtick:
  assumes "text = [] \<or> hd text \<noteq> CHR 0x60"
  shows "regex_match text = None"
proof (cases "regex_match text")
  case None
  then show ?thesis .
next
  case (Some code)
  from regex_match_sound [OF Some] obtain d pre w rest where
    "d \<in> {''`'', ''``'', ''```''}" "text = d @ pre @ code @ w @ d @ rest" by blast
  then have "text \<noteq> [] \<and> hd text = CHR 0x60" by auto
  then show ?thesis using assms by blast
qed

subsection \<open>The matcher computes the normaliser of the specification\<close>

lemma char_by_code: "(c \<in> set cs) = ((of_char c :: nat) \<in> set (map of_char cs))"
  by (induction cs) auto

lemma is_blank_spec: "is_blank c = spec_blank c"
  by (auto simp: is_blank_def spec_blank_def)

lemma is_space_spec: "is_space c = spec_whitespace c"
  unfolding is_space_def spec_whitespace_def char_by_code [of c] by simp

lemma is_letter_spec: "is_letter c = spec_letter c"
proof -
  have "(65 \<le> n \<and> n \<le> 90 \<or> 97 \<le> n \<and> n \<le> 122)
        = (n \<in> set (map of_char ''abcdefghijklmnopqrstuvwxyzABCDEFGHIJKLMNOPQRSTUVWXYZ''))" for n :: nat
    by (simp, arith)
  then show ?thesis
    unfolding is_letter_def spec_letter_def char_by_code [of c] Let_def by blast
qed

lemma class_eqs:
  "spec_whitespace = is_space" "spec_letter = is_letter" "spec_blank = is_blank"
  by (auto simp: is_space_spec is_letter_spec is_blank_spec)

lemma closes_is: "closes d s = (take (length d) (dropWhile is_space s) = d)"
  by (simp add: closes_def class_eqs)

lemma spec_strip_language_is:
  "spec_strip_language s =
     (let tag = takeWhile is_letter s; rest = dropWhile is_letter s
      in if tag \<noteq> [] \<and> take 1 rest = ''\<newline>'' then drop 1 rest else s)"
  by (simp add: spec_strip_language_def class_eqs)

lemma spec_strip_blank_lines_is:
  "spec_strip_blank_lines s =
     (let rest = dropWhile is_blank s
      in if take 1 rest = ''\<newline>'' then spec_strip_blank_lines (drop 1 rest) else s)"
  using spec_strip_blank_lines.simps [of s] by (simp add: class_eqs)

lemmas spec_strip_blank_lines_induct = spec_strip_blank_lines.induct [unfolded class_eqs]

lemma lit_take: "lit d s = (if take (length d) s = d then [drop (length d) s] else [])"
  by (induction d s rule: lit.induct) auto

lemma class_then_newline:
  "\<not> P CHR 0x0A \<Longrightarrow>
   concat (map (lit ''\<newline>'') (greedy_star P s))
     = (if take 1 (dropWhile P s) = ''\<newline>'' then [drop 1 (dropWhile P s)] else [])"
  by (induction s) auto

lemma blank_line_eq:
  "blank_line s = (if take 1 (dropWhile is_blank s) = ''\<newline>''
                   then [drop 1 (dropWhile is_blank s)] else [])"
proof -
  have "\<not> is_blank CHR 0x0A" by (simp add: is_blank_def)
  then show ?thesis
    using class_then_newline [of is_blank s] by (simp add: blank_line_def)
qed

lemma blank_lines_hd: "hd (blank_lines s) = spec_strip_blank_lines s"
proof (induction s rule: spec_strip_blank_lines_induct)
  case (1 s)
  let ?rest = "dropWhile is_blank s"
  show ?case
  proof (cases "take 1 ?rest = ''\<newline>''")
    case True
    then have "blank_lines s = blank_lines (drop 1 ?rest) @ [s]"
      by (subst blank_lines.simps) (simp add: blank_line_eq)
    then have "hd (blank_lines s) = hd (blank_lines (drop 1 ?rest))"
      using blank_lines_nonempty by simp
    also have "\<dots> = spec_strip_blank_lines (drop 1 ?rest)"
      using 1 True by simp
    also have "\<dots> = spec_strip_blank_lines s"
      using True by (subst (2) spec_strip_blank_lines_is) simp
    finally show ?thesis .
  next
    case False
    then have "blank_lines s = [s]"
      by (subst blank_lines.simps) (simp add: blank_line_eq)
    moreover have "spec_strip_blank_lines s = s"
      using False by (subst spec_strip_blank_lines_is) simp
    ultimately show ?thesis by simp
  qed
qed

lemma lang_alts_hd: "hd (lang_alts blk s) = (if blk then spec_strip_language s else s)"
proof (cases s)
  case Nil
  then show ?thesis by (simp add: lang_alts_def spec_strip_language_is)
next
  case (Cons c cs)
  have n: "\<not> is_letter CHR 0x0A" by (simp add: is_letter_def)
  show ?thesis
    using Cons n class_then_newline [of is_letter cs]
    by (simp add: lang_alts_def spec_strip_language_is)
qed


lemma occurs_skip: "CHR 0x60 \<notin> set p \<Longrightarrow> occurs (CHR 0x60 # d) (p @ r) = occurs (CHR 0x60 # d) r"
  by (induction p) auto

lemma occurs_suffix: "take (length d) r = d \<Longrightarrow> occurs d (p @ r)"
proof (induction p)
  case Nil
  then show ?case by (cases r) auto
next
  case (Cons c p)
  then show ?case by simp
qed

lemma closes_occurs: "closes d s \<Longrightarrow> occurs d s"
  using occurs_suffix [of d "dropWhile is_space s" "takeWhile is_space s"]
  by (simp add: closes_is)

lemma space_lit_closes:
  "concat (map (lit (CHR 0x60 # d)) (greedy_star is_space s))
     = (if closes (CHR 0x60 # d) s
        then [drop (length (CHR 0x60 # d)) (dropWhile is_space s)] else [])"
proof (induction s)
  case Nil
  then show ?case by (simp add: closes_is)
next
  case (Cons c cs)
  have n: "\<not> is_space CHR 0x60" by (simp add: is_space_def)
  show ?case
  proof (cases "is_space c")
    case True
    then have "c \<noteq> CHR 0x60" using n by auto
    then show ?thesis using True Cons by (simp add: closes_is)
  next
    case False
    then show ?thesis using n by (auto simp: closes_is lit_take)
  qed
qed

lemma code_alts_spec:
  "(\<not> occurs (CHR 0x60 # d) s \<longrightarrow> code_alts (CHR 0x60 # d) s = [])
   \<and> (occurs (CHR 0x60 # d) s
        \<longrightarrow> (\<exists>rest. code_alts (CHR 0x60 # d) s = spec_body (CHR 0x60 # d) s # rest))"
proof (induction s)
  case Nil
  then show ?case by (simp add: code_alts_Nil)
next
  case (Cons c cs)
  let ?d = "CHR 0x60 # d"
  define X where "X = concat (map (lit ?d) (greedy_star is_space (c # cs)))"
  have ca: "code_alts ?d (c # cs) = map (\<lambda>_. []) X @ map ((#) c) (code_alts ?d cs)"
    unfolding X_def by (rule code_alts_Cons)
  have x: "X = (if closes ?d (c # cs)
                then [drop (length ?d) (dropWhile is_space (c # cs))] else [])"
    unfolding X_def by (rule space_lit_closes)
  show ?case
  proof (cases "closes ?d (c # cs)")
    case True
    have "occurs ?d (c # cs)" using closes_occurs [OF True] .
    moreover have "spec_body ?d (c # cs) = []" using True by simp
    moreover have "\<exists>rest. code_alts ?d (c # cs) = [] # rest"
      using ca x True by simp
    ultimately show ?thesis by simp
  next
    case False
    have "take (length ?d) (c # cs) \<noteq> ?d"
    proof
      assume t: "take (length ?d) (c # cs) = ?d"
      then have "c = CHR 0x60" by simp
      then have "dropWhile is_space (c # cs) = c # cs" by (simp add: is_space_def)
      then show False using False t by (simp add: closes_is)
    qed
    then have o: "occurs ?d (c # cs) = occurs ?d cs" by auto
    have b: "spec_body ?d (c # cs) = c # spec_body ?d cs" using False by simp
    have e: "code_alts ?d (c # cs) = map ((#) c) (code_alts ?d cs)"
      using ca x False by simp
    show ?thesis
    proof (cases "occurs ?d cs")
      case True
      then obtain rest where "code_alts ?d cs = spec_body ?d cs # rest" using Cons by blast
      then have "code_alts ?d (c # cs) = spec_body ?d (c # cs) # map ((#) c) rest"
        using e b by simp
      then show ?thesis using o True by blast
    next
      case False
      then have "code_alts ?d cs = []" using Cons by blast
      then have "code_alts ?d (c # cs) = []" using e by simp
      moreover have "\<not> occurs ?d (c # cs)" using o False by blast
      ultimately show ?thesis by blast
    qed
  qed
qed

lemma greedy_star_clean:
  "\<not> P CHR 0x60 \<Longrightarrow> r \<in> set (greedy_star P s) \<Longrightarrow> \<exists>p. s = p @ r \<and> CHR 0x60 \<notin> set p"
proof -
  assume n: "\<not> P CHR 0x60" and "r \<in> set (greedy_star P s)"
  then obtain w where w: "s = w @ r" "list_all P w" using greedy_star_split by blast
  then have "CHR 0x60 \<notin> set w" using n by (auto simp: list_all_iff)
  then show ?thesis using w(1) by blast
qed

lemma class_newline_clean:
  assumes n: "\<not> P CHR 0x60"
    and r: "r \<in> set (concat (map (lit ''\<newline>'') (greedy_star P s)))"
  shows "\<exists>p. s = p @ r \<and> CHR 0x60 \<notin> set p"
proof -
  from r obtain t where t: "t \<in> set (greedy_star P s)" "r \<in> set (lit ''\<newline>'' t)" by auto
  from greedy_star_clean [OF n t(1)] obtain p where p: "s = p @ t" "CHR 0x60 \<notin> set p" by blast
  have "t = ''\<newline>'' @ r" using lit_suffix [OF t(2)] .
  then have "s = (p @ ''\<newline>'') @ r \<and> CHR 0x60 \<notin> set (p @ ''\<newline>'')" using p by simp
  then show ?thesis by blast
qed

lemma blank_line_clean:
  "r \<in> set (blank_line s) \<Longrightarrow> \<exists>p. s = p @ r \<and> CHR 0x60 \<notin> set p"
proof -
  assume a: "r \<in> set (blank_line s)"
  have n: "\<not> is_blank CHR 0x60" by (simp add: is_blank_def)
  show ?thesis using class_newline_clean [of is_blank r s] n a by (simp add: blank_line_def)
qed

lemma blank_lines_clean:
  "r \<in> set (blank_lines s) \<Longrightarrow> \<exists>p. s = p @ r \<and> CHR 0x60 \<notin> set p"
proof (induction s arbitrary: r rule: blank_lines.induct)
  case (1 s)
  from "1.prems" have "r = s \<or> (\<exists>t \<in> set (blank_line s). r \<in> set (blank_lines t))"
    by (subst (asm) blank_lines.simps) auto
  then show ?case
  proof
    assume "r = s"
    then have "s = [] @ r \<and> CHR 0x60 \<notin> set []" by simp
    then show ?thesis by blast
  next
    assume "\<exists>t \<in> set (blank_line s). r \<in> set (blank_lines t)"
    then obtain t where t: "t \<in> set (blank_line s)" "r \<in> set (blank_lines t)" by blast
    from "1.IH" [OF t] obtain p where p: "t = p @ r" "CHR 0x60 \<notin> set p" by blast
    from blank_line_clean [OF t(1)] obtain p' where p': "s = p' @ t" "CHR 0x60 \<notin> set p'" by blast
    have "s = (p' @ p) @ r \<and> CHR 0x60 \<notin> set (p' @ p)" using p p' by simp
    then show ?thesis by blast
  qed
qed

lemma lang_alts_clean:
  "r \<in> set (lang_alts blk s) \<Longrightarrow> \<exists>p. s = p @ r \<and> CHR 0x60 \<notin> set p"
proof -
  assume a: "r \<in> set (lang_alts blk s)"
  have n: "\<not> is_letter CHR 0x60" by (simp add: is_letter_def)
  have "r = s \<or> (\<exists>c cs. s = c # cs \<and> is_letter c
                  \<and> r \<in> set (concat (map (lit ''\<newline>'') (greedy_star is_letter cs))))"
    using a by (cases s) (auto simp: lang_alts_def split: if_splits)
  then show ?thesis
  proof
    assume "r = s"
    then have "s = [] @ r \<and> CHR 0x60 \<notin> set []" by simp
    then show ?thesis by blast
  next
    assume "\<exists>c cs. s = c # cs \<and> is_letter c
                  \<and> r \<in> set (concat (map (lit ''\<newline>'') (greedy_star is_letter cs)))"
    then obtain c cs where c: "s = c # cs" "is_letter c"
      "r \<in> set (concat (map (lit ''\<newline>'') (greedy_star is_letter cs)))" by blast
    from class_newline_clean [of is_letter r cs] n c(3)
    obtain p where p: "cs = p @ r" "CHR 0x60 \<notin> set p" by blast
    have "c \<noteq> CHR 0x60" using c(2) n by auto
    then have "s = (c # p) @ r \<and> CHR 0x60 \<notin> set (c # p)" using c(1) p by simp
    then show ?thesis by blast
  qed
qed


lemma inner_stages:
  fixes d' :: string
  defines "d \<equiv> CHR 0x60 # d'"
  shows "(\<not> occurs d r1 \<longrightarrow>
            concat (map (\<lambda>r2. concat (map (code_alts d) (blank_lines r2))) (lang_alts blk r1)) = [])
         \<and> (occurs d r1 \<longrightarrow>
            (\<exists>rest. concat (map (\<lambda>r2. concat (map (code_alts d) (blank_lines r2))) (lang_alts blk r1))
               = spec_body d (spec_strip_blank_lines (if blk then spec_strip_language r1 else r1)) # rest))"
proof -
  have occ: "occurs d r3 = occurs d r1"
    if "r2 \<in> set (lang_alts blk r1)" and "r3 \<in> set (blank_lines r2)" for r2 r3
  proof -
    from lang_alts_clean [OF that(1)] obtain p where p: "r1 = p @ r2" "CHR 0x60 \<notin> set p" by blast
    from blank_lines_clean [OF that(2)] obtain q where q: "r2 = q @ r3" "CHR 0x60 \<notin> set q" by blast
    have "r1 = (p @ q) @ r3" "CHR 0x60 \<notin> set (p @ q)" using p q by simp_all
    then show ?thesis using occurs_skip [of "p @ q" d' r3] by (simp add: d_def)
  qed
  have none: "concat (map (\<lambda>r2. concat (map (code_alts d) (blank_lines r2))) (lang_alts blk r1)) = []"
    if "\<not> occurs d r1"
  proof -
    have "code_alts d r3 = []"
      if "r2 \<in> set (lang_alts blk r1)" and "r3 \<in> set (blank_lines r2)" for r2 r3
      using occ [OF that] \<open>\<not> occurs d r1\<close> code_alts_spec [of d' r3] by (simp add: d_def)
    then show ?thesis by simp
  qed
  have some: "\<exists>rest. concat (map (\<lambda>r2. concat (map (code_alts d) (blank_lines r2))) (lang_alts blk r1))
               = spec_body d (spec_strip_blank_lines (if blk then spec_strip_language r1 else r1)) # rest"
    if o: "occurs d r1"
  proof -
    define l where "l = hd (lang_alts blk r1)"
    define b where "b = hd (blank_lines l)"
    have lm: "l \<in> set (lang_alts blk r1)" unfolding l_def using lang_alts_nonempty by simp
    have bm: "b \<in> set (blank_lines l)" unfolding b_def using blank_lines_nonempty by simp
    have "occurs d b" using occ [OF lm bm] o by simp
    then obtain rest where c: "code_alts d b = spec_body d b # rest"
      using code_alts_spec [of d' b] by (auto simp: d_def)
    have "\<exists>rest. concat (map (code_alts d) (blank_lines l)) = spec_body d b # rest"
      by (rule concat_map_hd [where ys = rest]) (use c blank_lines_nonempty b_def in auto)
    then obtain rest2 where c2: "concat (map (code_alts d) (blank_lines l)) = spec_body d b # rest2"
      by blast
    have "\<exists>rest. concat (map (\<lambda>r2. concat (map (code_alts d) (blank_lines r2))) (lang_alts blk r1))
            = spec_body d b # rest"
      by (rule concat_map_hd [where ys = rest2]) (use c2 lang_alts_nonempty l_def in auto)
    moreover have "b = spec_strip_blank_lines (if blk then spec_strip_language r1 else r1)"
      unfolding b_def l_def by (simp add: blank_lines_hd lang_alts_hd)
    ultimately show ?thesis by simp
  qed
  show ?thesis using none some by blast
qed

lemma regex_first_closed:
  assumes "\<forall>(d, blk, r) \<in> set alts. \<exists>d'. d = CHR 0x60 # d'"
  shows "(case concat (map (\<lambda>(delim, block, r1).
            concat (map (\<lambda>r2. concat (map (code_alts delim) (blank_lines r2))) (lang_alts block r1)))
            alts) of [] \<Rightarrow> None | code # _ \<Rightarrow> Some code) = first_closed alts"
  using assms
proof (induction alts)
  case Nil
  then show ?case by simp
next
  case (Cons a alts)
  obtain d blk r where a: "a = (d, blk, r)" by (cases a)
  obtain d' where d: "d = CHR 0x60 # d'" using Cons.prems a by auto
  define I where "I = concat (map (\<lambda>r2. concat (map (code_alts d) (blank_lines r2))) (lang_alts blk r))"
  define J where "J = concat (map (\<lambda>(delim, block, r1).
            concat (map (\<lambda>r2. concat (map (code_alts delim) (blank_lines r2))) (lang_alts block r1)))
            alts)"
  have ih: "(case J of [] \<Rightarrow> None | code # _ \<Rightarrow> Some code) = first_closed alts"
    unfolding J_def using Cons by simp
  have split: "concat (map (\<lambda>(delim, block, r1).
            concat (map (\<lambda>r2. concat (map (code_alts delim) (blank_lines r2))) (lang_alts block r1)))
            (a # alts)) = I @ J"
    unfolding I_def J_def a by simp
  show ?case
  proof (cases "occurs d r")
    case True
    then obtain rest where
      "I = spec_body d (spec_strip_blank_lines (if blk then spec_strip_language r else r)) # rest"
      unfolding I_def using inner_stages [of d' r blk] d by auto
    then show ?thesis unfolding split using True a by simp
  next
    case False
    then have "I = []" unfolding I_def using inner_stages [of d' r blk] d by auto
    then show ?thesis unfolding split using False a ih by simp
  qed
qed

lemma regex_match_first_closed:
  assumes "\<forall>(d, blk, r) \<in> set (delim_alts text). \<exists>d'. d = CHR 0x60 # d'"
  shows "regex_match text = first_closed (delim_alts text)"
  using regex_first_closed [OF assms] by (simp add: regex_match_def regex_unfold)

lemma delim_alts_ticks: "\<forall>(d, blk, r) \<in> set (delim_alts text). \<exists>d'. d = CHR 0x60 # d'"
  by (auto simp: delim_alts_def)

lemma delim_alts_cases:
  "delim_alts text =
     (if take 3 text = ''```'' then [(''```'', True, drop 3 text)] else []) @
     (if take 2 text = ''``'' then [(''``'', False, drop 2 text)] else []) @
     (if take 1 text = ''`'' then [(''`'', False, drop 1 text)] else [])"
proof (cases "text")
  case Nil
  then show ?thesis by (simp add: delim_alts_def)
next
  case 1: (Cons a t1)
  show ?thesis
  proof (cases t1)
    case Nil
    then show ?thesis using 1 by (simp add: delim_alts_def)
  next
    case 2: (Cons b t2)
    show ?thesis
    proof (cases t2)
      case Nil
      then show ?thesis using 1 2 by (auto simp: delim_alts_def)
    next
      case 3: (Cons c t3)
      then show ?thesis using 1 2 by (auto simp: delim_alts_def)
    qed
  qed
qed

lemma regex_match_spec:
  "regex_match text =
     (case spec_delimiter text of
        None \<Rightarrow> None
      | Some d \<Rightarrow>
         Some (let inner = drop (length d) text;
                   after_tag = (if d = ''```'' then spec_strip_language inner else inner)
               in spec_body d (spec_strip_blank_lines after_tag)))"
  unfolding regex_match_first_closed [OF delim_alts_ticks] delim_alts_cases spec_delimiter_def
  by (simp add: Let_def numeral_2_eq_2 numeral_3_eq_3)

lemma prepare_input_normalize: "prepare_input text = normalize text"
  by (simp add: prepare_input_def normalize_def regex_match_spec split: option.splits)


section \<open>The input normaliser\<close>

text \<open>
  C3. \<open>_prepare_input\<close> strips a leading code fence exactly as specified. When the
  pattern matches at position 0 the result is the captured body, otherwise the text
  itself; a text that does not begin with a backtick is never matched. The pattern
  matches exactly when the text opens with a delimiter of one to three backticks that
  occurs again later, and for every text the result is that of \<open>normalize\<close>, the
  normaliser written from the words of the specification: the longest such delimiter,
  a language line only after three backticks, the blank lines skipped, the body up to
  the whitespace before the first identical closing delimiter. A fence of one backtick
  around \<open>code\<close> gives \<open>code\<close>, so does a fence of three backticks, and so does a fence
  of three backticks with the language line \<open>python\<close>; a text without fence is returned
  as it is; a fence of one backtick around \<open>lang\<close>, a newline and \<open>code\<close> gives the
  whole body. Further, a single backtick inside a fence of three does not close it, a
  fence of two backticks keeps its first line, blank lines at the start are skipped,
  a language tag may be in capitals, and a tag with a digit is no tag.
\<close>

theorem prepare_input_strips_fence:
  "(regex_match text = Some code \<longrightarrow> prepare_input text = code)
   \<and> (regex_match text = None \<longrightarrow> prepare_input text = text)
   \<and> (text = [] \<or> hd text \<noteq> CHR 0x60 \<longrightarrow> prepare_input text = text)
   \<and> (regex_match text = None) = (spec_delimiter text = None)
   \<and> prepare_input text = normalize text
   \<and> prepare_input ''`code`'' = ''code''
   \<and> prepare_input ''```code```'' = ''code''
   \<and> prepare_input ''```python\<newline>code\<newline>```'' = ''code''
   \<and> prepare_input ''plain text'' = ''plain text''
   \<and> prepare_input ''`lang\<newline>code`'' = ''lang\<newline>code''
   \<and> prepare_input ''```a`b```'' = ''a`b''
   \<and> prepare_input ''``py\<newline>code``'' = ''py\<newline>code''
   \<and> prepare_input ''```\<newline> \<newline>code```'' = ''code''
   \<and> prepare_input ''```PY\<newline>code```'' = ''code''
   \<and> prepare_input ''```py3\<newline>code```'' = ''py3\<newline>code''"
proof -
  have a: "regex_match text = Some code \<longrightarrow> prepare_input text = code"
    by (simp add: prepare_input_def)
  have b: "regex_match text = None \<longrightarrow> prepare_input text = text"
    by (simp add: prepare_input_def)
  have c: "text = [] \<or> hd text \<noteq> CHR 0x60 \<longrightarrow> prepare_input text = text"
    using regex_match_needs_backtick [of "text"] by (auto simp: prepare_input_def)
  have d: "(regex_match text = None) = (spec_delimiter text = None)"
    by (simp add: regex_match_spec split: option.splits)
  have e: "prepare_input text = normalize text"
    by (rule prepare_input_normalize)
  have 1: "prepare_input ''`code`'' = ''code''" by code_simp
  have 2: "prepare_input ''```code```'' = ''code''" by code_simp
  have 3: "prepare_input ''```python\<newline>code\<newline>```'' = ''code''" by code_simp
  have 4: "prepare_input ''plain text'' = ''plain text''" by code_simp
  have 5: "prepare_input ''`lang\<newline>code`'' = ''lang\<newline>code''" by code_simp
  have 6: "prepare_input ''```a`b```'' = ''a`b''" by code_simp
  have 7: "prepare_input ''``py\<newline>code``'' = ''py\<newline>code''" by code_simp
  have 8: "prepare_input ''```\<newline> \<newline>code```'' = ''code''" by code_simp
  have 9: "prepare_input ''```PY\<newline>code```'' = ''code''" by code_simp
  have 10: "prepare_input ''```py3\<newline>code```'' = ''py3\<newline>code''" by code_simp
  show ?thesis using a b c d e 1 2 3 4 5 6 7 8 9 10 by blast
qed

theorem prepare_input_strips_fence_witness:
  "regex_match ''``` x ```'' = Some '' x'' \<and> prepare_input ''``` x ```'' = '' x''
   \<and> regex_match ''no fence'' = None \<and> prepare_input ''no fence'' = ''no fence''
   \<and> hd ''x `code`'' \<noteq> CHR 0x60 \<and> prepare_input ''x `code`'' = ''x `code`''
   \<and> spec_delimiter ''no fence'' = None
   \<and> normalize ''``` x ```'' = '' x''"
proof -
  have 1: "regex_match ''``` x ```'' = Some '' x''" by code_simp
  have 2: "regex_match ''no fence'' = None" by code_simp
  have 3: "hd ''x `code`'' \<noteq> CHR 0x60" by simp
  have 4: "prepare_input ''``` x ```'' = '' x''"
    using 1 prepare_input_strips_fence [of "''``` x ```''" "'' x''"] by blast
  have 5: "prepare_input ''no fence'' = ''no fence'' \<and> spec_delimiter ''no fence'' = None"
    using 2 prepare_input_strips_fence [of "''no fence''" "''x''"] by blast
  have 6: "prepare_input ''x `code`'' = ''x `code`''"
    using 3 prepare_input_strips_fence [of "''x `code`''" "''x''"] by blast
  have 7: "normalize ''``` x ```'' = '' x''"
    using 4 prepare_input_strips_fence [of "''``` x ```''" "'' x''"] by simp
  show ?thesis using 1 2 3 4 5 6 7 by blast
qed

text \<open>
  C9. The pattern need not reach the end of the input. For a well-formed fence (one of
  the three delimiters, a body that is not empty and has no backtick, the same delimiter
  again) followed by any text \<open>u\<close>, \<open>_prepare_input\<close> returns what it returns without
  \<open>u\<close>, and this is a part of the body: the text after the closing delimiter is dropped.
  And whenever the pattern matches, the result is the captured body, which the input
  holds between the opening delimiter and, after whitespace, the closing one; what
  follows the closing delimiter is no part of the result.
\<close>

theorem prepare_input_discards_trailing:
  "(d \<in> {''`'', ''``'', ''```''} \<and> b \<noteq> [] \<and> CHR 0x60 \<notin> set b
      \<longrightarrow> prepare_input (d @ b @ d @ u) = prepare_input (d @ b @ d)
          \<and> (\<exists>p q. b = p @ prepare_input (d @ b @ d @ u) @ q))
   \<and> (regex_match text = Some code
      \<longrightarrow> prepare_input text = code
          \<and> (\<exists>d pre w rest. d \<in> {''`'', ''``'', ''```''} \<and> list_all is_space w
                \<and> text = d @ pre @ code @ w @ d @ rest))"
proof -
  have 1: "d \<in> {''`'', ''``'', ''```''} \<and> b \<noteq> [] \<and> CHR 0x60 \<notin> set b
      \<longrightarrow> prepare_input (d @ b @ d @ u) = prepare_input (d @ b @ d)
          \<and> (\<exists>p q. b = p @ prepare_input (d @ b @ d @ u) @ q)"
    using prepare_input_fence [of d b u] prepare_input_fence [of d b "[]"]
      fence_body_part [of b "d = ''```''"]
    by simp
  have 2: "regex_match text = Some code
      \<longrightarrow> prepare_input text = code
          \<and> (\<exists>d pre w rest. d \<in> {''`'', ''``'', ''```''} \<and> list_all is_space w
                \<and> text = d @ pre @ code @ w @ d @ rest)"
    using regex_match_sound [of "text" code] by (simp add: prepare_input_def)
  show ?thesis using 1 2 by blast
qed

theorem prepare_input_discards_trailing_witness:
  "''`'' \<in> {''`'', ''``'', ''```''} \<and> ''code'' \<noteq> [] \<and> CHR 0x60 \<notin> set ''code''
   \<and> prepare_input ''`code` trailing words'' = prepare_input ''`code`''
   \<and> regex_match ''`code` trailing words'' = Some ''code''
   \<and> prepare_input ''`code` trailing words'' = ''code''"
proof -
  have 1: "''`'' \<in> {''`'', ''``'', ''```''} \<and> ''code'' \<noteq> [] \<and> CHR 0x60 \<notin> set ''code''" by simp
  have 2: "regex_match ''`code` trailing words'' = Some ''code''" by code_simp
  have "prepare_input (''`'' @ ''code'' @ ''`'' @ '' trailing words'')
           = prepare_input (''`'' @ ''code'' @ ''`'')"
    using 1 prepare_input_discards_trailing [of "''`''" "''code''" "'' trailing words''"]
    by blast
  then have 3: "prepare_input ''`code` trailing words'' = prepare_input ''`code`''"
    by simp
  have 4: "prepare_input ''`code` trailing words'' = ''code''"
    using 2 prepare_input_discards_trailing [of _ _ _ "''`code` trailing words''" "''code''"]
    by blast
  show ?thesis using 1 2 3 4 by blast
qed

section \<open>Properties of the command\<close>

lemma generate_image_invalid:
  assumes "status (http (render_post q)) < 400"
    and "json (http (render_post q)) = Some js"
    and "js ''status'' = Some s" and "s \<noteq> ''success''"
    and "js ''log'' = Some logs"
  shows "generate_image http q out st = (Inl (InvalidLatexError logs), emit (Http (render_post q)) st)"
  using assms by (simp add: generate_image_def Let_def)

lemma generate_image_post_error:
  assumes "400 \<le> status (http (render_post q))"
  shows "generate_image http q out st
         = (Inl (ClientResponseError (status (http (render_post q)))), emit (Http (render_post q)) st)"
  using assms by (simp add: generate_image_def Let_def)

lemma generate_image_get_error:
  assumes "status (http (render_post q)) < 400"
    and "json (http (render_post q)) = Some js"
    and "js ''status'' = Some ''success''"
    and "js ''filename'' = Some f"
    and "400 \<le> status (http (render_get f q))"
  shows "generate_image http q out st
         = (Inl (ClientResponseError (status (http (render_get f q)))),
            emit (Http (render_get f q)) (emit (Http (render_post q)) st))"
  using assms by (simp add: generate_image_def Let_def)

lemma generate_image_success:
  assumes "status (http (render_post q)) < 400"
    and "json (http (render_post q)) = Some js"
    and "js ''status'' = Some ''success''"
    and "js ''filename'' = Some f"
    and "status (http (render_get f q)) < 400"
  shows "generate_image http q out st
         = (Inr (), write_file out (content (http (render_get f q)))
                      (emit (Http (render_get f q)) (emit (Http (render_post q)) st)))"
  using assms by (simp add: generate_image_def Let_def)

lemma upload_fst:
  "fst (upload_to_pastebin http txt st) =
     (if 400 \<le> status (http (paste_post txt)) then None
      else case json (http (paste_post txt)) of None \<Rightarrow> None
        | Some js \<Rightarrow> (case js ''key'' of None \<Rightarrow> None
            | Some key \<Rightarrow> Some (PASTEBIN_URL @ ''/'' @ key @ ''.txt?noredirect'')))"
  by (simp add: upload_to_pastebin_def Let_def split: option.splits)

lemma upload_snd: "snd (upload_to_pastebin http txt st) = emit (Http (paste_post txt)) st"
  by (simp add: upload_to_pastebin_def Let_def split: option.splits)


lemma failure_run:
  assumes miss: "files st (image_path digest (prepare_input raw)) = None"
    and tpl: "substitute T (prepare_input raw) = Inr doc"
    and ok: "status (http (render_post doc)) < 400"
    and js: "json (http (render_post doc)) = Some js"
    and s: "js ''status'' = Some s" "s \<noteq> ''success''"
    and lg: "js ''log'' = Some logs"
  shows "latex digest T http raw st =
           (Inr (),
            \<lparr>files = files st,
             trace = trace st @
               [Open_wb (image_path digest (prepare_input raw)),
                Http (render_post doc),
                Close (image_path digest (prepare_input raw)),
                Http (paste_post logs),
                failure_embed (fst (upload_to_pastebin http logs st)),
                Unlink (image_path digest (prepare_input raw))]\<rparr>)"
proof -
  let ?p = "image_path digest (prepare_input raw)"
  have g: "generate_image http doc ?p (open_wb ?p st)
           = (Inl (InvalidLatexError logs), emit (Http (render_post doc)) (open_wb ?p st))"
    using generate_image_invalid [of http doc js s logs] ok js s lg by simp
  have u: "fst (upload_to_pastebin http logs (close ?p (emit (Http (render_post doc)) (open_wb ?p st))))
           = fst (upload_to_pastebin http logs st)"
    by (simp add: upload_fst)
  have f: "(files st)(?p := None) = files st"
    using miss by (simp add: fun_upd_idem_iff)
  show ?thesis
    unfolding latex_def Let_def
    using miss tpl g u f
    by (simp add: case_prod_unfold upload_snd unlink_def emit_def close_def open_wb_def)
qed


lemma post_error_run:
  assumes miss: "files st (image_path digest (prepare_input raw)) = None"
    and tpl: "substitute T (prepare_input raw) = Inr doc"
    and bad: "400 \<le> status (http (render_post doc))"
  shows "latex digest T http raw st =
           (Inl (ClientResponseError (status (http (render_post doc)))),
            \<lparr>files = (files st)(image_path digest (prepare_input raw) \<mapsto> []),
             trace = trace st @
               [Open_wb (image_path digest (prepare_input raw)),
                Http (render_post doc),
                Close (image_path digest (prepare_input raw))]\<rparr>)"
proof -
  let ?p = "image_path digest (prepare_input raw)"
  have g: "generate_image http doc ?p (open_wb ?p st)
           = (Inl (ClientResponseError (status (http (render_post doc)))),
              emit (Http (render_post doc)) (open_wb ?p st))"
    using generate_image_post_error [of http doc] bad by simp
  show ?thesis
    unfolding latex_def Let_def
    using miss tpl g
    by (simp add: emit_def close_def open_wb_def)
qed

lemma get_error_run:
  assumes miss: "files st (image_path digest (prepare_input raw)) = None"
    and tpl: "substitute T (prepare_input raw) = Inr doc"
    and ok: "status (http (render_post doc)) < 400"
    and js: "json (http (render_post doc)) = Some js"
    and s: "js ''status'' = Some ''success''"
    and f: "js ''filename'' = Some f"
    and bad: "400 \<le> status (http (render_get f doc))"
  shows "latex digest T http raw st =
           (Inl (ClientResponseError (status (http (render_get f doc)))),
            \<lparr>files = (files st)(image_path digest (prepare_input raw) \<mapsto> []),
             trace = trace st @
               [Open_wb (image_path digest (prepare_input raw)),
                Http (render_post doc),
                Http (render_get f doc),
                Close (image_path digest (prepare_input raw))]\<rparr>)"
proof -
  let ?p = "image_path digest (prepare_input raw)"
  have g: "generate_image http doc ?p (open_wb ?p st)
           = (Inl (ClientResponseError (status (http (render_get f doc)))),
              emit (Http (render_get f doc)) (emit (Http (render_post doc)) (open_wb ?p st)))"
    using generate_image_get_error [of http doc js f] ok js s f bad by simp
  show ?thesis
    unfolding latex_def Let_def
    using miss tpl g
    by (simp add: emit_def close_def open_wb_def)
qed

lemma success_run:
  assumes miss: "files st (image_path digest (prepare_input raw)) = None"
    and tpl: "substitute T (prepare_input raw) = Inr doc"
    and ok: "status (http (render_post doc)) < 400"
    and js: "json (http (render_post doc)) = Some js"
    and s: "js ''status'' = Some ''success''"
    and f: "js ''filename'' = Some f"
    and ok2: "status (http (render_get f doc)) < 400"
  shows "latex digest T http raw st =
           (Inr (),
            \<lparr>files = (files st)(image_path digest (prepare_input raw) \<mapsto> content (http (render_get f doc))),
             trace = trace st @
               [Open_wb (image_path digest (prepare_input raw)),
                Http (render_post doc),
                Http (render_get f doc),
                Write (image_path digest (prepare_input raw)) (content (http (render_get f doc))),
                Close (image_path digest (prepare_input raw)),
                Send_file ''latex.png'' (content (http (render_get f doc)))]\<rparr>)"
proof -
  let ?p = "image_path digest (prepare_input raw)"
  have g: "generate_image http doc ?p (open_wb ?p st)
           = (Inr (), write_file ?p (content (http (render_get f doc)))
                (emit (Http (render_get f doc)) (emit (Http (render_post doc)) (open_wb ?p st))))"
    using generate_image_success [of http doc js f] ok js s f ok2 by simp
  show ?thesis
    unfolding latex_def Let_def
    using miss tpl g
    by (simp add: emit_def close_def open_wb_def write_file_def send_file_def)
qed

lemma hit_run:
  assumes "files st (image_path digest (prepare_input raw)) = Some data"
  shows "latex digest T http raw st = (Inr (), emit (Send_file ''latex.png'' data) st)"
  using assms by (simp add: latex_def Let_def send_file_def)

lemma generate_image_files:
  "p \<noteq> out \<Longrightarrow> files (snd (generate_image http q out st)) p = files st p"
  by (simp add: generate_image_def Let_def emit_def write_file_def split: option.splits)

lemma upload_files: "files (snd (upload_to_pastebin http txt st)) = files st"
  by (simp add: upload_snd emit_def)

lemma unlink_files: "p \<noteq> path \<Longrightarrow> files (snd (unlink path st)) p = files st p"
  by (simp add: unlink_def emit_def split: option.splits)

lemma send_file_files: "files (snd (send_file path name st)) = files st"
  by (simp add: send_file_def emit_def split: option.splits)

lemma latex_files_other:
  assumes "p \<noteq> image_path digest (prepare_input raw)"
  shows "files (snd (latex digest T http raw st)) p = files st p"
proof (cases "files st (image_path digest (prepare_input raw)) = None")
  case False
  then obtain data where "files st (image_path digest (prepare_input raw)) = Some data" by auto
  then show ?thesis using hit_run [of st digest raw data T http] by (simp add: emit_def)
next
  case True
  let ?p = "image_path digest (prepare_input raw)"
  show ?thesis
  proof (cases "substitute T (prepare_input raw)")
    case (Inl e)
    then show ?thesis using True assms
      by (simp add: latex_def Let_def close_def emit_def open_wb_def)
  next
    case (Inr doc)
    obtain r st2 where g: "generate_image http doc ?p (open_wb ?p st) = (r, st2)"
      by (cases "generate_image http doc ?p (open_wb ?p st)") auto
    have f2: "files st2 p = files st p"
      using generate_image_files [OF assms, of http doc "open_wb ?p st"] g assms
      by (simp add: open_wb_def emit_def)
    show ?thesis
    proof (cases r)
      case (Inr u)
      then show ?thesis using True \<open>substitute T (prepare_input raw) = Inr doc\<close> g f2
        by (simp add: latex_def Let_def send_file_files close_def emit_def)
    next
      case (Inl e)
      then show ?thesis using True \<open>substitute T (prepare_input raw) = Inr doc\<close> g f2 assms
        by (cases e)
          (simp_all add: latex_def Let_def close_def emit_def case_prod_unfold unlink_files upload_files)
    qed
  qed
qed

lemma latex_keeps_file:
  assumes "files st p = Some data"
  shows "files (snd (latex digest T http raw st)) p = Some data"
proof (cases "p = image_path digest (prepare_input raw)")
  case True
  then show ?thesis using assms hit_run [of st digest raw data T http] by (simp add: emit_def)
next
  case False
  then show ?thesis using assms latex_files_other by simp
qed

lemma invocations_keep_file:
  "files st p = Some data \<Longrightarrow> files (invocations digest T calls st) p = Some data"
proof (induction calls arbitrary: st)
  case Nil
  then show ?case by simp
next
  case (Cons c calls)
  obtain http raw where c: "c = (http, raw)" by (cases c)
  show ?case
    unfolding c invocations.simps
    by (rule Cons.IH) (rule latex_keeps_file [OF Cons.prems])
qed

lemma prepare_input_x: "prepare_input ''x'' = ''x''"
  by code_simp

lemma example_path: "image_path example_md5 ''x'' = ''cache/0.png''"
  by (simp add: image_path_def example_md5_def encode_def CACHE_DIRECTORY_def)

lemma example_doc: "substitute example_template ''x'' = Inr ''$x$''"
  by (simp add: example_template_def)

lemma upload_url_nonempty: "fst (upload_to_pastebin http txt st) = Some url \<Longrightarrow> url \<noteq> []"
  by (auto simp: upload_fst PASTEBIN_URL_def split: if_splits option.splits)

lemma failure_embed_notice:
  "failure_embed (fst (upload_to_pastebin http txt st)) =
     Send_embed ''Failed to render input.''
       (case fst (upload_to_pastebin http txt st) of
          Some url \<Rightarrow> ''[View Logs]('' @ url @ '')''
        | None \<Rightarrow> ''Couldn't upload logs.'')"
  using upload_url_nonempty [of http "txt" st]
  by (cases "fst (upload_to_pastebin http txt st)") (simp_all add: failure_embed_def)

section \<open>The failure path\<close>

text \<open>
  C1. When the cache has no entry for the query and the rendering API answers with a
  status that is not \<open>success\<close> (a logical render failure with its log), the command
  returns normally, no file is left at the path of the entry, exactly one failure
  notice is sent, with the link to the logs if the paste upload gave a URL and with
  the message that the logs could not be uploaded otherwise, and no image is sent.
\<close>

theorem render_failure_notice:
  assumes "files st (image_path digest (prepare_input raw)) = None"
    and "substitute T (prepare_input raw) = Inr doc"
    and "status (http (render_post doc)) < 400"
    and "json (http (render_post doc)) = Some js"
    and "js ''status'' = Some s" and "s \<noteq> ''success''"
    and "js ''log'' = Some logs"
  shows "\<exists>st' evs.
           latex digest T http raw st = (Inr (), st')
           \<and> files st' (image_path digest (prepare_input raw)) = None
           \<and> trace st' = trace st @ evs
           \<and> filter is_notice evs =
               [Send_embed ''Failed to render input.''
                  (case fst (upload_to_pastebin http logs st) of
                     Some url \<Rightarrow> ''[View Logs]('' @ url @ '')''
                   | None \<Rightarrow> ''Couldn't upload logs.'')]
           \<and> filter is_image evs = []"
  using failure_run [where st = st and digest = digest and raw = raw and T = T and doc = doc
      and http = http and js = js and s = s and logs = logs] assms
  by (simp add: failure_embed_notice is_notice_def is_image_def)

theorem render_failure_notice_witness:
  "files empty_cache (image_path example_md5 (prepare_input ''x'')) = None
   \<and> substitute example_template (prepare_input ''x'') = Inr ''$x$''
   \<and> status (http_render_failure (render_post ''$x$'')) < 400
   \<and> json (http_render_failure (render_post ''$x$'')) = Some [''status'' \<mapsto> ''error'', ''log'' \<mapsto> ''boom'']
   \<and> [''status'' \<mapsto> ''error'', ''log'' \<mapsto> ''boom''] ''status'' = Some ''error''
   \<and> ''error'' \<noteq> ''success''
   \<and> [''status'' \<mapsto> ''error'', ''log'' \<mapsto> ''boom''] ''log'' = Some ''boom''
   \<and> (\<exists>st' evs.
           latex example_md5 example_template http_render_failure ''x'' empty_cache = (Inr (), st')
           \<and> files st' ''cache/0.png'' = None
           \<and> trace st' = evs
           \<and> filter is_notice evs =
               [Send_embed ''Failed to render input.''
                  ''[View Logs](https://paste.pythondiscord.com/abc.txt?noredirect)'']
           \<and> filter is_image evs = [])"
proof -
  have 1: "files empty_cache (image_path example_md5 (prepare_input ''x'')) = None"
    by (simp add: empty_cache_def)
  have 2: "substitute example_template (prepare_input ''x'') = Inr ''$x$''"
    by (simp add: prepare_input_x example_doc)
  have 3: "status (http_render_failure (render_post ''$x$'')) < 400"
    by (simp add: http_render_failure_def)
  have 4: "json (http_render_failure (render_post ''$x$'')) = Some [''status'' \<mapsto> ''error'', ''log'' \<mapsto> ''boom'']"
    by (simp add: http_render_failure_def)
  have 5: "[''status'' \<mapsto> ''error'', ''log'' \<mapsto> ''boom''] ''status'' = Some ''error''"
    by simp
  have 6: "''error'' \<noteq> ''success''" by simp
  have 7: "[''status'' \<mapsto> ''error'', ''log'' \<mapsto> ''boom''] ''log'' = Some ''boom''"
    by simp
  have 8: "\<And>st. fst (upload_to_pastebin http_render_failure ''boom'' st)
           = Some ''https://paste.pythondiscord.com/abc.txt?noredirect''"
    by (simp add: upload_fst http_render_failure_def PASTEBIN_URL_def)
  show ?thesis
    using 1 2 3 4 5 6 7
      render_failure_notice [where st = empty_cache and digest = example_md5 and raw = "''x''"
        and T = example_template and doc = "''$x$''" and http = http_render_failure
        and js = "[''status'' \<mapsto> ''error'', ''log'' \<mapsto> ''boom'']" and s = "''error''"
        and logs = "''boom''"]
    by (simp add: 8 prepare_input_x example_path empty_cache_def)
qed


lemma example_failure_trace:
  "trace (snd (latex example_md5 example_template http_render_failure ''x'' empty_cache)) =
     [Open_wb ''cache/0.png'',
      Http (render_post ''$x$''),
      Close ''cache/0.png'',
      Http (paste_post ''boom''),
      Send_embed ''Failed to render input.''
        ''[View Logs](https://paste.pythondiscord.com/abc.txt?noredirect)'',
      Unlink ''cache/0.png'']"
proof -
  have 1: "files empty_cache (image_path example_md5 (prepare_input ''x'')) = None"
    by (simp add: empty_cache_def)
  have 2: "substitute example_template (prepare_input ''x'') = Inr ''$x$''"
    by (simp add: prepare_input_x example_doc)
  have 3: "status (http_render_failure (render_post ''$x$'')) < 400"
    by (simp add: http_render_failure_def)
  have 4: "json (http_render_failure (render_post ''$x$'')) = Some [''status'' \<mapsto> ''error'', ''log'' \<mapsto> ''boom'']"
    by (simp add: http_render_failure_def)
  have 8: "\<And>st. fst (upload_to_pastebin http_render_failure ''boom'' st)
           = Some ''https://paste.pythondiscord.com/abc.txt?noredirect''"
    by (simp add: upload_fst http_render_failure_def PASTEBIN_URL_def)
  show ?thesis
    using 1 2 3 4
      failure_run [where st = empty_cache and digest = example_md5 and raw = "''x''"
        and T = example_template and doc = "''$x$''" and http = http_render_failure
        and js = "[''status'' \<mapsto> ''error'', ''log'' \<mapsto> ''boom'']" and s = "''error''"
        and logs = "''boom''"]
    by (simp add: 8 failure_embed_def prepare_input_x example_path empty_cache_def)
qed

text \<open>
  C2. The claim that on a logical render failure the reserved cache path is deleted
  before the log upload and before the failure notice does not hold: the handler of
  \<open>InvalidLatexError\<close> uploads the logs, sends the notice and calls \<open>unlink\<close> last.
  In the run below no deletion comes before the upload or the notice, and the upload
  comes before the deletion.
\<close>

theorem unlink_before_upload_counterexample:
  "\<not> precedes (Unlink ''cache/0.png'') (Http (paste_post ''boom''))
       (trace (snd (latex example_md5 example_template http_render_failure ''x'' empty_cache)))
   \<and> \<not> precedes (Unlink ''cache/0.png'')
       (Send_embed ''Failed to render input.''
          ''[View Logs](https://paste.pythondiscord.com/abc.txt?noredirect)'')
       (trace (snd (latex example_md5 example_template http_render_failure ''x'' empty_cache)))
   \<and> precedes (Http (paste_post ''boom'')) (Unlink ''cache/0.png'')
       (trace (snd (latex example_md5 example_template http_render_failure ''x'' empty_cache)))"
  unfolding example_failure_trace by (simp add: PASTEBIN_URL_def LATEX_API_URL_def)

text \<open>
  C2, as amended. On a logical render failure the steps are, in this order: the output
  file is opened, the document is posted to the renderer, the file is closed, the logs
  are posted to the paste service, the failure notice is sent, and the reserved cache
  path is deleted last.
\<close>

theorem failure_steps_in_order:
  assumes "files st (image_path digest (prepare_input raw)) = None"
    and "substitute T (prepare_input raw) = Inr doc"
    and "status (http (render_post doc)) < 400"
    and "json (http (render_post doc)) = Some js"
    and "js ''status'' = Some s" and "s \<noteq> ''success''"
    and "js ''log'' = Some logs"
  shows "trace (snd (latex digest T http raw st)) =
           trace st @
             [Open_wb (image_path digest (prepare_input raw)),
              Http (render_post doc),
              Close (image_path digest (prepare_input raw)),
              Http (paste_post logs),
              Send_embed ''Failed to render input.''
                (case fst (upload_to_pastebin http logs st) of
                   Some url \<Rightarrow> ''[View Logs]('' @ url @ '')''
                 | None \<Rightarrow> ''Couldn't upload logs.''),
              Unlink (image_path digest (prepare_input raw))]"
  using failure_run [where st = st and digest = digest and raw = raw and T = T and doc = doc
      and http = http and js = js and s = s and logs = logs] assms
  by (simp add: failure_embed_notice)

theorem failure_steps_in_order_witness:
  "files empty_cache (image_path example_md5 (prepare_input ''x'')) = None
   \<and> substitute example_template (prepare_input ''x'') = Inr ''$x$''
   \<and> status (http_render_failure (render_post ''$x$'')) < 400
   \<and> json (http_render_failure (render_post ''$x$'')) = Some [''status'' \<mapsto> ''error'', ''log'' \<mapsto> ''boom'']
   \<and> [''status'' \<mapsto> ''error'', ''log'' \<mapsto> ''boom''] ''status'' = Some ''error''
   \<and> ''error'' \<noteq> ''success''
   \<and> [''status'' \<mapsto> ''error'', ''log'' \<mapsto> ''boom''] ''log'' = Some ''boom''
   \<and> trace (snd (latex example_md5 example_template http_render_failure ''x'' empty_cache)) =
        [Open_wb ''cache/0.png'',
         Http (render_post ''$x$''),
         Close ''cache/0.png'',
         Http (paste_post ''boom''),
         Send_embed ''Failed to render input.''
           ''[View Logs](https://paste.pythondiscord.com/abc.txt?noredirect)'',
         Unlink ''cache/0.png'']"
proof -
  have 1: "files empty_cache (image_path example_md5 (prepare_input ''x'')) = None"
    by (simp add: empty_cache_def)
  have 2: "substitute example_template (prepare_input ''x'') = Inr ''$x$''"
    by (simp add: prepare_input_x example_doc)
  have 3: "status (http_render_failure (render_post ''$x$'')) < 400"
    by (simp add: http_render_failure_def)
  have 4: "json (http_render_failure (render_post ''$x$'')) = Some [''status'' \<mapsto> ''error'', ''log'' \<mapsto> ''boom'']"
    by (simp add: http_render_failure_def)
  have 5: "[''status'' \<mapsto> ''error'', ''log'' \<mapsto> ''boom''] ''status'' = Some ''error''"
    by simp
  have 6: "''error'' \<noteq> ''success''" by simp
  have 7: "[''status'' \<mapsto> ''error'', ''log'' \<mapsto> ''boom''] ''log'' = Some ''boom''"
    by simp
  have 8: "\<And>st. fst (upload_to_pastebin http_render_failure ''boom'' st)
           = Some ''https://paste.pythondiscord.com/abc.txt?noredirect''"
    by (simp add: upload_fst http_render_failure_def PASTEBIN_URL_def)
  show ?thesis
    using 1 2 3 4 5 6 7
      failure_steps_in_order [where st = empty_cache and digest = example_md5 and raw = "''x''"
        and T = example_template and doc = "''$x$''" and http = http_render_failure
        and js = "[''status'' \<mapsto> ''error'', ''log'' \<mapsto> ''boom'']" and s = "''error''"
        and logs = "''boom''"]
    by (simp add: 8 prepare_input_x example_path empty_cache_def)
qed

section \<open>The render client and the paste client\<close>

text \<open>
  C6. \<open>_generate_image\<close> tells a logical failure from a transport failure. When the
  submit POST has a success status and the JSON status field is not \<open>success\<close>, it
  raises \<open>InvalidLatexError\<close> with exactly the log field, after that one request. When
  the POST, or the GET of the artifact, has a status of 400 or more, it raises the
  transport error, and no request is made again. On full success it gets the artifact
  at the endpoint followed by the file name and writes the raw body of the response.
\<close>

theorem generate_image_outcomes:
  "(status (http (render_post q)) < 400 \<and> json (http (render_post q)) = Some js
      \<and> js ''status'' = Some s \<and> s \<noteq> ''success'' \<and> js ''log'' = Some logs
    \<longrightarrow> generate_image http q out st
          = (Inl (InvalidLatexError logs), emit (Http (render_post q)) st))
   \<and> (400 \<le> status (http (render_post q))
    \<longrightarrow> generate_image http q out st
          = (Inl (ClientResponseError (status (http (render_post q)))),
             emit (Http (render_post q)) st))
   \<and> (status (http (render_post q)) < 400 \<and> json (http (render_post q)) = Some js
      \<and> js ''status'' = Some ''success'' \<and> js ''filename'' = Some f
      \<and> 400 \<le> status (http (Get (LATEX_API_URL @ ''/'' @ f) (render_payload q)))
    \<longrightarrow> generate_image http q out st
          = (Inl (ClientResponseError (status (http (Get (LATEX_API_URL @ ''/'' @ f) (render_payload q))))),
             emit (Http (Get (LATEX_API_URL @ ''/'' @ f) (render_payload q)))
               (emit (Http (render_post q)) st)))
   \<and> (status (http (render_post q)) < 400 \<and> json (http (render_post q)) = Some js
      \<and> js ''status'' = Some ''success'' \<and> js ''filename'' = Some f
      \<and> status (http (Get (LATEX_API_URL @ ''/'' @ f) (render_payload q))) < 400
    \<longrightarrow> generate_image http q out st
          = (Inr (),
             write_file out (content (http (Get (LATEX_API_URL @ ''/'' @ f) (render_payload q))))
               (emit (Http (Get (LATEX_API_URL @ ''/'' @ f) (render_payload q)))
                 (emit (Http (render_post q)) st))))"
  using generate_image_invalid [of http q js s logs out st]
    generate_image_post_error [of http q out st]
    generate_image_get_error [of http q js f out st]
    generate_image_success [of http q js f out st]
  by blast

theorem generate_image_outcomes_witness:
  "status (http_render_failure (render_post ''$x$'')) < 400
   \<and> json (http_render_failure (render_post ''$x$'')) = Some [''status'' \<mapsto> ''error'', ''log'' \<mapsto> ''boom'']
   \<and> [''status'' \<mapsto> ''error'', ''log'' \<mapsto> ''boom''] ''status'' = Some ''error''
   \<and> ''error'' \<noteq> ''success''
   \<and> [''status'' \<mapsto> ''error'', ''log'' \<mapsto> ''boom''] ''log'' = Some ''boom''
   \<and> generate_image http_render_failure ''$x$'' ''cache/0.png'' empty_cache
       = (Inl (InvalidLatexError ''boom''), emit (Http (render_post ''$x$'')) empty_cache)
   \<and> 400 \<le> status (http_down (render_post ''$x$''))
   \<and> generate_image http_down ''$x$'' ''cache/0.png'' empty_cache
       = (Inl (ClientResponseError 503), emit (Http (render_post ''$x$'')) empty_cache)
   \<and> status (http_get_down (render_post ''$x$'')) < 400
   \<and> json (http_get_down (render_post ''$x$''))
       = Some [''status'' \<mapsto> ''success'', ''filename'' \<mapsto> ''out.png'']
   \<and> [''status'' \<mapsto> ''success'', ''filename'' \<mapsto> ''out.png''] ''status'' = Some ''success''
   \<and> [''status'' \<mapsto> ''success'', ''filename'' \<mapsto> ''out.png''] ''filename'' = Some ''out.png''
   \<and> 400 \<le> status (http_get_down (Get (LATEX_API_URL @ ''/'' @ ''out.png'') (render_payload ''$x$'')))
   \<and> generate_image http_get_down ''$x$'' ''cache/0.png'' empty_cache
       = (Inl (ClientResponseError 500),
          emit (Http (Get (LATEX_API_URL @ ''/'' @ ''out.png'') (render_payload ''$x$'')))
            (emit (Http (render_post ''$x$'')) empty_cache))
   \<and> status (http_render_ok (render_post ''$x$'')) < 400
   \<and> json (http_render_ok (render_post ''$x$''))
       = Some [''status'' \<mapsto> ''success'', ''filename'' \<mapsto> ''out.png'']
   \<and> status (http_render_ok (Get (LATEX_API_URL @ ''/'' @ ''out.png'') (render_payload ''$x$''))) < 400
   \<and> generate_image http_render_ok ''$x$'' ''cache/0.png'' empty_cache
       = (Inr (),
          write_file ''cache/0.png'' [137, 80, 78, 71]
            (emit (Http (Get (LATEX_API_URL @ ''/'' @ ''out.png'') (render_payload ''$x$'')))
              (emit (Http (render_post ''$x$'')) empty_cache)))"
proof -
  let ?e = "[''status'' \<mapsto> ''error'', ''log'' \<mapsto> ''boom'']"
  let ?s = "[''status'' \<mapsto> ''success'', ''filename'' \<mapsto> ''out.png'']"
  have a: "status (http_render_failure (render_post ''$x$'')) < 400
           \<and> json (http_render_failure (render_post ''$x$'')) = Some ?e
           \<and> ?e ''status'' = Some ''error'' \<and> ''error'' \<noteq> ''success'' \<and> ?e ''log'' = Some ''boom''"
    by (simp add: http_render_failure_def)
  have b: "400 \<le> status (http_down (render_post ''$x$'')) \<and> status (http_down (render_post ''$x$'')) = 503"
    by (simp add: http_down_def)
  have c: "status (http_get_down (render_post ''$x$'')) < 400
           \<and> json (http_get_down (render_post ''$x$'')) = Some ?s
           \<and> ?s ''status'' = Some ''success'' \<and> ?s ''filename'' = Some ''out.png''
           \<and> 400 \<le> status (http_get_down (Get (LATEX_API_URL @ ''/'' @ ''out.png'') (render_payload ''$x$'')))
           \<and> status (http_get_down (Get (LATEX_API_URL @ ''/'' @ ''out.png'') (render_payload ''$x$''))) = 500"
    by (simp add: http_get_down_def)
  have d: "status (http_render_ok (render_post ''$x$'')) < 400
           \<and> json (http_render_ok (render_post ''$x$'')) = Some ?s
           \<and> status (http_render_ok (Get (LATEX_API_URL @ ''/'' @ ''out.png'') (render_payload ''$x$''))) < 400
           \<and> content (http_render_ok (Get (LATEX_API_URL @ ''/'' @ ''out.png'') (render_payload ''$x$'')))
               = [137, 80, 78, 71]"
    by (simp add: http_render_ok_def)
  have 1: "generate_image http_render_failure ''$x$'' ''cache/0.png'' empty_cache
       = (Inl (InvalidLatexError ''boom''), emit (Http (render_post ''$x$'')) empty_cache)"
    using a generate_image_outcomes [of http_render_failure "''$x$''" ?e "''error''" "''boom''"
        "''cache/0.png''" empty_cache]
    by blast
  have 2: "generate_image http_down ''$x$'' ''cache/0.png'' empty_cache
       = (Inl (ClientResponseError 503), emit (Http (render_post ''$x$'')) empty_cache)"
    using b generate_image_outcomes [of http_down "''$x$''" _ _ _ "''cache/0.png''" empty_cache]
    by metis
  have 3: "generate_image http_get_down ''$x$'' ''cache/0.png'' empty_cache
       = (Inl (ClientResponseError 500),
          emit (Http (Get (LATEX_API_URL @ ''/'' @ ''out.png'') (render_payload ''$x$'')))
            (emit (Http (render_post ''$x$'')) empty_cache))"
    using c generate_image_outcomes [of http_get_down "''$x$''" ?s _ _ "''cache/0.png''" empty_cache "''out.png''"]
    by metis
  have 4: "generate_image http_render_ok ''$x$'' ''cache/0.png'' empty_cache
       = (Inr (),
          write_file ''cache/0.png'' [137, 80, 78, 71]
            (emit (Http (Get (LATEX_API_URL @ ''/'' @ ''out.png'') (render_payload ''$x$'')))
              (emit (Http (render_post ''$x$'')) empty_cache)))"
    using c d generate_image_outcomes [of http_render_ok "''$x$''" ?s _ _ "''cache/0.png''" empty_cache "''out.png''"]
    by metis
  show ?thesis using a b c d 1 2 3 4 by blast
qed

text \<open>
  C7. \<open>_upload_to_pastebin\<close> returns the view URL, the paste base followed by the key
  and \<open>.txt?noredirect\<close>, exactly when the request succeeds and the response is a JSON
  body with a \<open>key\<close> field; when the request fails, the body is not JSON or the key is
  missing, it returns \<open>None\<close>. It has no way to fail: in each case it returns after its
  one request.
\<close>

theorem upload_to_pastebin_url:
  "(fst (upload_to_pastebin http t st) = Some url
      \<longleftrightarrow> status (http (paste_post t)) < 400
          \<and> (\<exists>js key. json (http (paste_post t)) = Some js \<and> js ''key'' = Some key
                \<and> url = PASTEBIN_URL @ ''/'' @ key @ ''.txt?noredirect''))
   \<and> (400 \<le> status (http (paste_post t)) \<or> json (http (paste_post t)) = None
        \<or> (\<exists>js. json (http (paste_post t)) = Some js \<and> js ''key'' = None)
      \<longrightarrow> fst (upload_to_pastebin http t st) = None)
   \<and> snd (upload_to_pastebin http t st) = emit (Http (paste_post t)) st"
  by (auto simp: upload_fst upload_snd split: option.splits)

theorem upload_to_pastebin_url_witness:
  "status (http_render_failure (paste_post ''boom'')) < 400
   \<and> json (http_render_failure (paste_post ''boom'')) = Some [''key'' \<mapsto> ''abc'']
   \<and> fst (upload_to_pastebin http_render_failure ''boom'' empty_cache)
       = Some ''https://paste.pythondiscord.com/abc.txt?noredirect''
   \<and> 400 \<le> status (http_down (paste_post ''boom''))
   \<and> fst (upload_to_pastebin http_down ''boom'' empty_cache) = None
   \<and> snd (upload_to_pastebin http_down ''boom'' empty_cache) = emit (Http (paste_post ''boom'')) empty_cache"
proof -
  have a: "status (http_render_failure (paste_post ''boom'')) < 400
           \<and> json (http_render_failure (paste_post ''boom'')) = Some [''key'' \<mapsto> ''abc'']
           \<and> [''key'' \<mapsto> ''abc''] ''key'' = Some ''abc''"
    by (simp add: http_render_failure_def)
  have u: "''https://paste.pythondiscord.com/abc.txt?noredirect''
           = PASTEBIN_URL @ ''/'' @ ''abc'' @ ''.txt?noredirect''"
    by (simp add: PASTEBIN_URL_def)
  have b: "400 \<le> status (http_down (paste_post ''boom''))"
    by (simp add: http_down_def)
  have 1: "fst (upload_to_pastebin http_render_failure ''boom'' empty_cache)
       = Some ''https://paste.pythondiscord.com/abc.txt?noredirect''"
    using a u upload_to_pastebin_url [of http_render_failure "''boom''" empty_cache
        "''https://paste.pythondiscord.com/abc.txt?noredirect''"]
    by blast
  have 2: "fst (upload_to_pastebin http_down ''boom'' empty_cache) = None
           \<and> snd (upload_to_pastebin http_down ''boom'' empty_cache) = emit (Http (paste_post ''boom'')) empty_cache"
    using b upload_to_pastebin_url [of http_down "''boom''" empty_cache]
    by blast
  show ?thesis using a b 1 2 by blast
qed

section \<open>The cache\<close>

text \<open>
  C4. Cache round trip. After an invocation that found no entry and rendered the query
  with success, the entry holds the bytes of the artifact, and so it does after any
  further invocations. An invocation after these whose raw input has the same
  normal form then sends exactly these bytes as its only action: it makes no request.
\<close>

theorem cache_round_trip:
  assumes "files st (image_path digest (prepare_input raw)) = None"
    and "substitute T (prepare_input raw) = Inr doc"
    and "status (http (render_post doc)) < 400"
    and "json (http (render_post doc)) = Some js"
    and "js ''status'' = Some ''success''"
    and "js ''filename'' = Some f"
    and "status (http (render_get f doc)) < 400"
    and "prepare_input raw' = prepare_input raw"
  shows "files (snd (latex digest T http raw st)) (image_path digest (prepare_input raw))
           = Some (content (http (render_get f doc)))
         \<and> latex digest T http' raw' (invocations digest T calls (snd (latex digest T http raw st)))
           = (Inr (),
              emit (Send_file ''latex.png'' (content (http (render_get f doc))))
                (invocations digest T calls (snd (latex digest T http raw st))))"
proof -
  let ?p = "image_path digest (prepare_input raw)"
  let ?st1 = "snd (latex digest T http raw st)"
  have 1: "files ?st1 ?p = Some (content (http (render_get f doc)))"
    using success_run [where st = st and digest = digest and raw = raw and T = T and doc = doc
        and http = http and js = js and f = f] assms
    by simp
  have 2: "files (invocations digest T calls ?st1) (image_path digest (prepare_input raw'))
           = Some (content (http (render_get f doc)))"
    using invocations_keep_file [of ?st1 ?p _ digest T calls] 1 assms(8) by simp
  show ?thesis
    using 1 hit_run [OF 2, of T http'] by simp
qed

theorem cache_round_trip_witness:
  "files empty_cache (image_path example_md5 (prepare_input ''x'')) = None
   \<and> substitute example_template (prepare_input ''x'') = Inr ''$x$''
   \<and> status (http_render_ok (render_post ''$x$'')) < 400
   \<and> json (http_render_ok (render_post ''$x$''))
       = Some [''status'' \<mapsto> ''success'', ''filename'' \<mapsto> ''out.png'']
   \<and> [''status'' \<mapsto> ''success'', ''filename'' \<mapsto> ''out.png''] ''status'' = Some ''success''
   \<and> [''status'' \<mapsto> ''success'', ''filename'' \<mapsto> ''out.png''] ''filename'' = Some ''out.png''
   \<and> status (http_render_ok (render_get ''out.png'' ''$x$'')) < 400
   \<and> prepare_input ''`x`'' = prepare_input ''x''
   \<and> files (snd (latex example_md5 example_template http_render_ok ''x'' empty_cache)) ''cache/0.png''
       = Some [137, 80, 78, 71]
   \<and> trace (snd (latex example_md5 example_template http_down ''`x`''
        (snd (latex example_md5 example_template http_render_ok ''x'' empty_cache))))
       = trace (snd (latex example_md5 example_template http_render_ok ''x'' empty_cache))
           @ [Send_file ''latex.png'' [137, 80, 78, 71]]"
proof -
  let ?s = "[''status'' \<mapsto> ''success'', ''filename'' \<mapsto> ''out.png'']"
  have 1: "files empty_cache (image_path example_md5 (prepare_input ''x'')) = None"
    by (simp add: empty_cache_def)
  have 2: "substitute example_template (prepare_input ''x'') = Inr ''$x$''"
    by (simp add: prepare_input_x example_doc)
  have 3: "status (http_render_ok (render_post ''$x$'')) < 400"
    by (simp add: http_render_ok_def)
  have 4: "json (http_render_ok (render_post ''$x$'')) = Some ?s"
    by (simp add: http_render_ok_def)
  have 5: "?s ''status'' = Some ''success''" by simp
  have 6: "?s ''filename'' = Some ''out.png''" by simp
  have 7: "status (http_render_ok (render_get ''out.png'' ''$x$'')) < 400"
    by (simp add: http_render_ok_def)
  have 8: "prepare_input ''`x`'' = prepare_input ''x''" by code_simp
  have 9: "\<And>u b. content (http_render_ok (Get u b)) = [137, 80, 78, 71]"
    by (simp add: http_render_ok_def)
  show ?thesis
    using 1 2 3 4 5 6 7 8
      cache_round_trip [where st = empty_cache and digest = example_md5 and raw = "''x''"
        and T = example_template and doc = "''$x$''" and http = http_render_ok
        and js = ?s and f = "''out.png''" and raw' = "''`x`''" and http' = http_down
        and calls = "[]"]
    by (simp add: 9 prepare_input_x example_path emit_def)
qed

subsection \<open>How a run that misses the cache begins\<close>

lemma generate_image_trace:
  "\<exists>evs. trace (snd (generate_image http q out st)) = trace st @ Http (render_post q) # evs"
  by (simp add: generate_image_def Let_def emit_def write_file_def split: option.splits)

lemma send_file_trace: "\<exists>evs. trace (snd (send_file path name st)) = trace st @ evs"
  by (simp add: send_file_def emit_def split: option.splits)

lemma unlink_trace: "\<exists>evs. trace (snd (unlink path st)) = trace st @ evs"
  by (simp add: unlink_def emit_def split: option.splits)

lemma latex_miss_trace:
  assumes miss: "files st (image_path digest (prepare_input raw)) = None"
    and tpl: "substitute T (prepare_input raw) = Inr doc"
  shows "\<exists>evs. trace (snd (latex digest T http raw st))
           = trace st @ Open_wb (image_path digest (prepare_input raw)) # Http (render_post doc) # evs"
proof -
  let ?p = "image_path digest (prepare_input raw)"
  obtain r st2 where g: "generate_image http doc ?p (open_wb ?p st) = (r, st2)"
    by (cases "generate_image http doc ?p (open_wb ?p st)") auto
  obtain evs where t2: "trace st2 = trace st @ Open_wb ?p # Http (render_post doc) # evs"
    using generate_image_trace [of http doc ?p "open_wb ?p st"] g
    by (auto simp: open_wb_def emit_def)
  show ?thesis
  proof (cases r)
    case (Inr u)
    obtain evs' where "trace (snd (send_file ?p ''latex.png'' (close ?p st2))) = trace (close ?p st2) @ evs'"
      using send_file_trace by blast
    then show ?thesis using miss tpl g Inr t2
      by (simp add: latex_def Let_def close_def emit_def)
  next
    case (Inl e)
    show ?thesis
    proof (cases "\<exists>logs. e = InvalidLatexError logs")
      case True
      then obtain logs where e: "e = InvalidLatexError logs" by blast
      let ?st5 = "emit (failure_embed (fst (upload_to_pastebin http logs (close ?p st2))))
                    (snd (upload_to_pastebin http logs (close ?p st2)))"
      obtain evs' where "trace (snd (unlink ?p ?st5)) = trace ?st5 @ evs'"
        using unlink_trace by blast
      then show ?thesis using miss tpl g Inl e t2
        by (simp add: latex_def Let_def case_prod_unfold upload_snd close_def emit_def)
    next
      case False
      then show ?thesis using miss tpl g Inl t2
        by (cases e) (simp_all add: latex_def Let_def close_def emit_def)
    qed
  qed
qed

lemma transport_error_run:
  assumes miss: "files st (image_path digest (prepare_input raw)) = None"
    and tpl: "substitute T (prepare_input raw) = Inr doc"
    and err: "400 \<le> status (http (render_post doc))
              \<or> (status (http (render_post doc)) < 400 \<and> json (http (render_post doc)) = Some js
                  \<and> js ''status'' = Some ''success'' \<and> js ''filename'' = Some f
                  \<and> 400 \<le> status (http (render_get f doc)))"
  shows "\<exists>code evs. latex digest T http raw st =
           (Inl (ClientResponseError code),
            \<lparr>files = (files st)(image_path digest (prepare_input raw) \<mapsto> []),
             trace = trace st @ Open_wb (image_path digest (prepare_input raw)) # Http (render_post doc)
                # evs @ [Close (image_path digest (prepare_input raw))]\<rparr>)
           \<and> list_all is_http evs"
  using err
proof
  assume "400 \<le> status (http (render_post doc))"
  then show ?thesis
    using post_error_run [where st = st and digest = digest and raw = raw and T = T and doc = doc
        and http = http] miss tpl
    by simp
next
  assume "status (http (render_post doc)) < 400 \<and> json (http (render_post doc)) = Some js
          \<and> js ''status'' = Some ''success'' \<and> js ''filename'' = Some f
          \<and> 400 \<le> status (http (render_get f doc))"
  then have "latex digest T http raw st =
           (Inl (ClientResponseError (status (http (render_get f doc)))),
            \<lparr>files = (files st)(image_path digest (prepare_input raw) \<mapsto> []),
             trace = trace st @
               [Open_wb (image_path digest (prepare_input raw)),
                Http (render_post doc),
                Http (render_get f doc),
                Close (image_path digest (prepare_input raw))]\<rparr>)"
    using get_error_run [where st = st and digest = digest and raw = raw and T = T and doc = doc
        and http = http and js = js and f = f] miss tpl
    by simp
  then have "latex digest T http raw st =
           (Inl (ClientResponseError (status (http (render_get f doc)))),
            \<lparr>files = (files st)(image_path digest (prepare_input raw) \<mapsto> []),
             trace = trace st @ Open_wb (image_path digest (prepare_input raw)) # Http (render_post doc)
                # [Http (render_get f doc)] @ [Close (image_path digest (prepare_input raw))]\<rparr>)
           \<and> list_all is_http [Http (render_get f doc)]"
    by (simp add: is_http_def)
  then show ?thesis by blast
qed


section \<open>Transport errors\<close>

text \<open>
  C5. When the cache has no entry and the render call fails with a transport error (a
  status of 400 or more on the submit POST, or on the GET of the artifact), the error
  leaves the command, the command sends no failure notice and no image, and nothing is
  cleaned up: the path of the entry is not unlinked and the file opened there stays,
  empty.
\<close>

theorem transport_error_propagates:
  assumes "files st (image_path digest (prepare_input raw)) = None"
    and "substitute T (prepare_input raw) = Inr doc"
    and "400 \<le> status (http (render_post doc))
         \<or> (status (http (render_post doc)) < 400 \<and> json (http (render_post doc)) = Some js
             \<and> js ''status'' = Some ''success'' \<and> js ''filename'' = Some f
             \<and> 400 \<le> status (http (render_get f doc)))"
  shows "\<exists>code st' evs.
           latex digest T http raw st = (Inl (ClientResponseError code), st')
           \<and> trace st' = trace st @ evs
           \<and> filter is_notice evs = []
           \<and> filter is_image evs = []
           \<and> Unlink (image_path digest (prepare_input raw)) \<notin> set evs
           \<and> files st' (image_path digest (prepare_input raw)) = Some []"
proof -
  let ?p = "image_path digest (prepare_input raw)"
  obtain code evs where
    r: "latex digest T http raw st =
           (Inl (ClientResponseError code),
            \<lparr>files = (files st)(?p \<mapsto> []),
             trace = trace st @ Open_wb ?p # Http (render_post doc) # evs @ [Close ?p]\<rparr>)"
    and h: "list_all is_http evs"
    using transport_error_run [where st = st and digest = digest and raw = raw and T = T
        and doc = doc and http = http and js = js and f = f] assms
    by blast
  have n: "filter is_notice evs = [] \<and> filter is_image evs = [] \<and> Unlink ?p \<notin> set evs"
    using h by (induction evs) (auto simp: is_http_def is_notice_def is_image_def split: event.splits)
  show ?thesis
    using r n by (simp add: is_notice_def is_image_def)
qed

theorem transport_error_propagates_witness:
  "files empty_cache (image_path example_md5 (prepare_input ''x'')) = None
   \<and> substitute example_template (prepare_input ''x'') = Inr ''$x$''
   \<and> 400 \<le> status (http_down (render_post ''$x$''))
   \<and> (\<exists>code st' evs.
           latex example_md5 example_template http_down ''x'' empty_cache
             = (Inl (ClientResponseError code), st')
           \<and> trace st' = evs
           \<and> filter is_notice evs = []
           \<and> filter is_image evs = []
           \<and> Unlink ''cache/0.png'' \<notin> set evs
           \<and> files st' ''cache/0.png'' = Some [])"
proof -
  have 1: "files empty_cache (image_path example_md5 (prepare_input ''x'')) = None"
    by (simp add: empty_cache_def)
  have 2: "substitute example_template (prepare_input ''x'') = Inr ''$x$''"
    by (simp add: prepare_input_x example_doc)
  have 3: "400 \<le> status (http_down (render_post ''$x$''))"
    by (simp add: http_down_def)
  show ?thesis
    using 1 2 3
      transport_error_propagates [where st = empty_cache and digest = example_md5
        and raw = "''x''" and T = example_template and doc = "''$x$''" and http = http_down]
    by (simp add: prepare_input_x example_path empty_cache_def)
qed

text \<open>
  C8. The poisoned cache. The output file is opened, and so created, before the first
  request of the render call. When the render call then fails with a transport error,
  an empty file stays at the path of the entry, also after any further invocations,
  and an invocation after these whose raw input has the same normal form takes it for
  a cache hit: it makes no request and sends the empty file as the image.
\<close>

theorem transport_error_poisons_cache:
  assumes "files st (image_path digest (prepare_input raw)) = None"
    and "substitute T (prepare_input raw) = Inr doc"
    and "400 \<le> status (http (render_post doc))
         \<or> (status (http (render_post doc)) < 400 \<and> json (http (render_post doc)) = Some js
             \<and> js ''status'' = Some ''success'' \<and> js ''filename'' = Some f
             \<and> 400 \<le> status (http (render_get f doc)))"
    and "prepare_input raw' = prepare_input raw"
  shows "(\<exists>evs. trace (snd (latex digest T http raw st))
            = trace st @ Open_wb (image_path digest (prepare_input raw)) # Http (render_post doc) # evs)
         \<and> files (snd (latex digest T http raw st)) (image_path digest (prepare_input raw)) = Some []
         \<and> latex digest T http' raw' (invocations digest T calls (snd (latex digest T http raw st)))
           = (Inr (),
              emit (Send_file ''latex.png'' [])
                (invocations digest T calls (snd (latex digest T http raw st))))"
proof -
  let ?p = "image_path digest (prepare_input raw)"
  let ?st1 = "snd (latex digest T http raw st)"
  obtain code evs where
    r: "latex digest T http raw st =
           (Inl (ClientResponseError code),
            \<lparr>files = (files st)(?p \<mapsto> []),
             trace = trace st @ Open_wb ?p # Http (render_post doc) # evs @ [Close ?p]\<rparr>)"
    using transport_error_run [where st = st and digest = digest and raw = raw and T = T
        and doc = doc and http = http and js = js and f = f] assms(1,2,3)
    by blast
  have 1: "files ?st1 ?p = Some []" using r by simp
  have 2: "files (invocations digest T calls ?st1) (image_path digest (prepare_input raw')) = Some []"
    using invocations_keep_file [of ?st1 ?p _ digest T calls] 1 assms(4) by simp
  have 3: "\<exists>evs. trace ?st1 = trace st @ Open_wb ?p # Http (render_post doc) # evs"
    using r by simp
  show ?thesis
    using 1 3 hit_run [OF 2, of T http'] by simp
qed

theorem transport_error_poisons_cache_witness:
  "files empty_cache (image_path example_md5 (prepare_input ''x'')) = None
   \<and> substitute example_template (prepare_input ''x'') = Inr ''$x$''
   \<and> status (http_get_down (render_post ''$x$'')) < 400
   \<and> json (http_get_down (render_post ''$x$''))
       = Some [''status'' \<mapsto> ''success'', ''filename'' \<mapsto> ''out.png'']
   \<and> [''status'' \<mapsto> ''success'', ''filename'' \<mapsto> ''out.png''] ''status'' = Some ''success''
   \<and> [''status'' \<mapsto> ''success'', ''filename'' \<mapsto> ''out.png''] ''filename'' = Some ''out.png''
   \<and> 400 \<le> status (http_get_down (render_get ''out.png'' ''$x$''))
   \<and> prepare_input ''`x`'' = prepare_input ''x''
   \<and> files (snd (latex example_md5 example_template http_get_down ''x'' empty_cache)) ''cache/0.png''
       = Some []
   \<and> trace (snd (latex example_md5 example_template http_render_ok ''`x`''
        (snd (latex example_md5 example_template http_get_down ''x'' empty_cache))))
       = trace (snd (latex example_md5 example_template http_get_down ''x'' empty_cache))
           @ [Send_file ''latex.png'' []]"
proof -
  let ?s = "[''status'' \<mapsto> ''success'', ''filename'' \<mapsto> ''out.png'']"
  have 1: "files empty_cache (image_path example_md5 (prepare_input ''x'')) = None"
    by (simp add: empty_cache_def)
  have 2: "substitute example_template (prepare_input ''x'') = Inr ''$x$''"
    by (simp add: prepare_input_x example_doc)
  have 3: "status (http_get_down (render_post ''$x$'')) < 400"
    by (simp add: http_get_down_def)
  have 4: "json (http_get_down (render_post ''$x$'')) = Some ?s"
    by (simp add: http_get_down_def)
  have 5: "?s ''status'' = Some ''success''" by simp
  have 6: "?s ''filename'' = Some ''out.png''" by simp
  have 7: "400 \<le> status (http_get_down (render_get ''out.png'' ''$x$''))"
    by (simp add: http_get_down_def)
  have 8: "prepare_input ''`x`'' = prepare_input ''x''" by code_simp
  show ?thesis
    using 1 2 3 4 5 6 7 8
      transport_error_poisons_cache [where st = empty_cache and digest = example_md5
        and raw = "''x''" and T = example_template and doc = "''$x$''" and http = http_get_down
        and js = ?s and f = "''out.png''" and raw' = "''`x`''" and http' = http_render_ok
        and calls = "[]"]
    by (simp add: prepare_input_x example_path emit_def)
qed

section \<open>The cache key\<close>

text \<open>
  C10. The cache key is the MD5 hex digest of the UTF-8 bytes of the normalised query
  alone: the path of the entry is made from the query before the template is applied.
  Whatever the template, an invocation leaves every other path of the cache as it was,
  on a hit it sends the file at this path, and on a miss it opens this path; the text
  it posts to the renderer is the document that the template gives for the query.
\<close>

theorem cache_key_ignores_template:
  "image_path digest query = CACHE_DIRECTORY @ ''/'' @ digest (encode query) @ ''.png''
   \<and> (p \<noteq> image_path digest (prepare_input raw)
        \<longrightarrow> files (snd (latex digest T http raw st)) p = files st p
            \<and> files (snd (latex digest T' http raw st)) p = files (snd (latex digest T http raw st)) p)
   \<and> (files st (image_path digest (prepare_input raw)) = Some data
        \<longrightarrow> latex digest T http raw st = (Inr (), emit (Send_file ''latex.png'' data) st))
   \<and> (files st (image_path digest (prepare_input raw)) = None
        \<and> substitute T (prepare_input raw) = Inr doc
        \<longrightarrow> (\<exists>evs. trace (snd (latex digest T http raw st))
                    = trace st @ Open_wb (image_path digest (prepare_input raw))
                        # Http (render_post doc) # evs))"
  using latex_files_other [of p digest raw T http st] latex_files_other [of p digest raw T' http st]
    hit_run [of st digest raw data T http]
    latex_miss_trace [of st digest raw T doc http]
  by (simp add: image_path_def)

theorem cache_key_ignores_template_witness:
  "''cache/1.png'' \<noteq> image_path example_md5 (prepare_input ''x'')
   \<and> files (snd (latex example_md5 example_template http_render_ok ''x'' empty_cache)) ''cache/1.png''
       = files empty_cache ''cache/1.png''
   \<and> files (snd (latex example_md5 [Placeholder ''text''] http_render_ok ''x'' empty_cache)) ''cache/1.png''
       = files (snd (latex example_md5 example_template http_render_ok ''x'' empty_cache)) ''cache/1.png''
   \<and> files (empty_cache\<lparr>files := [''cache/0.png'' \<mapsto> [1]]\<rparr>) (image_path example_md5 (prepare_input ''x''))
       = Some [1]
   \<and> latex example_md5 example_template http_render_ok ''x'' (empty_cache\<lparr>files := [''cache/0.png'' \<mapsto> [1]]\<rparr>)
       = (Inr (), emit (Send_file ''latex.png'' [1]) (empty_cache\<lparr>files := [''cache/0.png'' \<mapsto> [1]]\<rparr>))
   \<and> files empty_cache (image_path example_md5 (prepare_input ''x'')) = None
   \<and> substitute example_template (prepare_input ''x'') = Inr ''$x$''
   \<and> (\<exists>evs. trace (snd (latex example_md5 example_template http_render_ok ''x'' empty_cache))
          = trace empty_cache @ Open_wb ''cache/0.png'' # Http (render_post ''$x$'') # evs)"
proof -
  have 1: "''cache/1.png'' \<noteq> image_path example_md5 (prepare_input ''x'')"
    by (simp add: prepare_input_x example_path)
  have 2: "files (empty_cache\<lparr>files := [''cache/0.png'' \<mapsto> [1]]\<rparr>) (image_path example_md5 (prepare_input ''x''))
       = Some [1]"
    by (simp add: prepare_input_x example_path)
  have 3: "files empty_cache (image_path example_md5 (prepare_input ''x'')) = None"
    by (simp add: empty_cache_def)
  have 4: "substitute example_template (prepare_input ''x'') = Inr ''$x$''"
    by (simp add: prepare_input_x example_doc)
  have a: "files (snd (latex example_md5 example_template http_render_ok ''x'' empty_cache)) ''cache/1.png''
       = files empty_cache ''cache/1.png''
      \<and> files (snd (latex example_md5 [Placeholder ''text''] http_render_ok ''x'' empty_cache)) ''cache/1.png''
       = files (snd (latex example_md5 example_template http_render_ok ''x'' empty_cache)) ''cache/1.png''"
    using 1 cache_key_ignores_template [where p = "''cache/1.png''" and digest = example_md5
        and raw = "''x''" and T = example_template and T' = "[Placeholder ''text'']"
        and http = http_render_ok and st = empty_cache]
    by blast
  have b: "latex example_md5 example_template http_render_ok ''x'' (empty_cache\<lparr>files := [''cache/0.png'' \<mapsto> [1]]\<rparr>)
       = (Inr (), emit (Send_file ''latex.png'' [1]) (empty_cache\<lparr>files := [''cache/0.png'' \<mapsto> [1]]\<rparr>))"
    using 2 cache_key_ignores_template [where digest = example_md5
        and raw = "''x''" and T = example_template and data = "[1]"
        and http = http_render_ok and st = "empty_cache\<lparr>files := [''cache/0.png'' \<mapsto> [1]]\<rparr>"]
    by blast
  have c: "\<exists>evs. trace (snd (latex example_md5 example_template http_render_ok ''x'' empty_cache))
          = trace empty_cache @ Open_wb (image_path example_md5 (prepare_input ''x''))
              # Http (render_post ''$x$'') # evs"
    using 3 4 cache_key_ignores_template [where digest = example_md5
        and raw = "''x''" and T = example_template and doc = "''$x$''"
        and http = http_render_ok and st = empty_cache]
    by blast
  show ?thesis
    using 1 2 3 4 a b c by (simp add: prepare_input_x example_path)
qed

end
